theory Spec2Isabelle
  imports Complex_Main
begin

section \<open>Python values\<close>

text \<open>
  Exceptions are values. \<open>OtherException c\<close> stands for any further class \<open>c\<close> derived
  from Python's \<open>Exception\<close>; \<open>NonException c\<close> for a class derived from
  \<open>BaseException\<close> only (\<open>KeyboardInterrupt\<close>, \<open>SystemExit\<close>), which an
  \<open>except Exception\<close> clause lets through. \<open>exn_str\<close> is what \<open>str(e)\<close> gives and
  \<open>cause\<close> is what \<open>raise ... from e\<close> chains.
\<close>

datatype exn_class =
    UserValueError
  | UserInputError
  | ArthurInternalError
  | ValueError
  | OtherException string
  | NonException string

fun is_Exception :: "exn_class \<Rightarrow> bool" where
  "is_Exception (NonException c) = False"
| "is_Exception c = True"

datatype exn = Exn (exn_class: exn_class) (exn_str: string) (cause: "exn option")

type_synonym 'a result = "exn + 'a"

text \<open>Decimal rendering of a length inside an f-string.\<close>

definition digit_char :: "nat \<Rightarrow> char" where
  "digit_char d = ''0123456789'' ! d"

fun str_nat :: "nat \<Rightarrow> string" where
  "str_nat n = (if n < 10 then [digit_char n] else str_nat (n div 10) @ [digit_char (n mod 10)])"

declare str_nat.simps [simp del]

text \<open>
  \<open>range(start, stop, step)\<close>: a zero step raises \<open>ValueError\<close>; otherwise the
  number of elements is the one CPython computes.
\<close>

definition py_range :: "int \<Rightarrow> int \<Rightarrow> int \<Rightarrow> int list result" where
  "py_range start stop step =
     (if step = 0 then Inl (Exn ValueError ''range() arg 3 must not be zero'' None)
      else if 0 < step then
        Inr (if start < stop
             then map (\<lambda>k. start + int k * step) [0 ..< nat ((stop - start - 1) div step + 1)]
             else [])
      else
        Inr (if stop < start
             then map (\<lambda>k. start + int k * step) [0 ..< nat ((start - stop - 1) div (- step) + 1)]
             else []))"

text \<open>
  \<open>xs[lo:hi]\<close>: a negative bound counts from the end, and both bounds are clamped to
  the list, so a slice never raises.
\<close>

definition slice_index :: "nat \<Rightarrow> int \<Rightarrow> nat" where
  "slice_index n k = (if k < 0 then nat (max 0 (int n + k)) else min n (nat k))"

definition py_slice :: "'a list \<Rightarrow> int \<Rightarrow> int \<Rightarrow> 'a list" where
  "py_slice xs lo hi =
     (let a = slice_index (length xs) lo; b = slice_index (length xs) hi
      in take (b - a) (drop a xs))"

text \<open>
  \<open>input_batch, ref_batch = zip(*batch)\<close>: with an empty \<open>batch\<close> the \<open>zip\<close> yields
  nothing and the unpacking raises.
\<close>

definition unzip_pairs :: "('a \<times> 'b) list \<Rightarrow> ('a list \<times> 'b list) result" where
  "unzip_pairs batch =
     (if batch = [] then Inl (Exn ValueError ''not enough values to unpack (expected 2, got 0)'' None)
      else Inr (map fst batch, map snd batch))"

text \<open>A \<open>pathlib.Path\<close> is its components; it is truthy whatever they are.\<close>

datatype path = Path "string list"

fun path_join :: "path \<Rightarrow> string \<Rightarrow> path" where
  "path_join (Path cs) c = Path (cs @ [c])"


section \<open>Data model\<close>

text \<open>A score is a number that is carried from the scoring method to the run, never computed on.\<close>

type_synonym score = real
type_synonym DataFrame = "(string \<times> string list) list"
type_synonym metadata = "(string \<times> string) list"

datatype ScoringEnum = QACorrectness | OtherScoring string

text \<open>The \<open>scoring_method\<close> argument of the constructor is an enum member or a string.\<close>

datatype scoring_arg = EnumArg ScoringEnum | StrArg string

record TestCase =
  input :: string
  reference_output :: "string option"

text \<open>The field \<open>output\<close> of the source is \<open>output_text\<close> here.\<close>

record TestCaseOutput =
  output_text :: string
  score :: score

text \<open>
  The fields of the suite model carry the prefix \<open>suite_\<close> and those of the run the prefix
  \<open>tr_\<close> where the plain name is also the name of an argument of the constructor or of
  \<open>run\<close>.
\<close>

record TestSuiteRequest =
  suite_name :: string
  suite_scoring_method :: ScoringEnum
  suite_description :: "string option"
  test_cases :: "TestCase list"
  suite_metadata :: metadata

record TestRun =
  tr_name :: string
  test_case_outputs :: "TestCaseOutput list"
  tr_model_name :: "string option"
  tr_model_version :: "string option"
  tr_foundation_model :: "string option"
  tr_prompt_template :: "string option"
  tr_run_dir :: "path option"
  tr_metadata :: metadata

text \<open>The object \<open>self\<close>: \<open>self.id\<close>, \<open>self.suite\<close> and \<open>self._test_suite_dir\<close>.\<close>

record TestSuite =
  suite_id :: "string option"
  suite :: TestSuiteRequest
  self_test_suite_dir :: path


section \<open>The scoring method and the persistence layer\<close>

text \<open>
  One call of \<open>run_batch\<close>, with three positional arguments or with four.
\<close>

datatype batch_call =
    RunBatch3 (refs: "string option list") (cands: "string list") (inps: "string list")
  | RunBatch4 (refs: "string option list") (cands: "string list") (inps: "string list")
      (ctxs: "string list")

text \<open>
  A loaded scoring method is an object that may keep state between calls: what
  \<open>run_batch\<close> gives may depend on the calls made on the object before. It returns the
  scores or raises.
\<close>

type_synonym ScoringMethod = "batch_call list \<Rightarrow> batch_call \<Rightarrow> score list result"

text \<open>
  What a call leaves behind outside the returned value: directories made and removed,
  files written, log lines, calls of the scoring method with their outcome. A function
  returns its result together with the events it caused, oldest first.
\<close>

datatype event =
    CreateTestSuiteDir string
  | CreateRunDir string string
  | CleanUpRun path
  | WriteText path string
  | RunSave TestRun
  | LogInfo string
  | LogError string
  | RunBatch batch_call "score list result"

text \<open>
  The helpers imported from \<open>arthur_bench.run.utils\<close>, \<open>arthur_bench.scoring\<close> and the
  models, as parameters: the functions below are stated for every choice of them. The
  resolvers of the scoring method and the loaders of suite and run data return a value or
  raise; the helpers that name, create and remove directories, stamp metadata and
  serialise are taken to return.
\<close>

record env =
  get_suite_if_exists :: "string \<Rightarrow> TestSuiteRequest option"
  get_scoring_method :: "scoring_arg \<Rightarrow> ScoringEnum result"
  load_suite_from_args ::
    "DataFrame option \<Rightarrow> string option \<Rightarrow> string \<Rightarrow> string option \<Rightarrow>
     string list option \<Rightarrow> string list option \<Rightarrow> TestCase list result"
  initialize_metadata :: metadata
  create_test_suite_dir :: "string \<Rightarrow> path"
  test_suite_dir :: "string \<Rightarrow> path"
  load_run_data_from_args ::
    "DataFrame option \<Rightarrow> string option \<Rightarrow> string \<Rightarrow> string list option \<Rightarrow>
     string option \<Rightarrow> string list option \<Rightarrow> (string list \<times> string list option) result"
  load_scoring_method :: "ScoringEnum \<Rightarrow> ScoringMethod result"
  create_run_dir :: "string \<Rightarrow> string \<Rightarrow> path"
  suite_json :: "TestSuiteRequest \<Rightarrow> string"


section \<open>TestSuite\<close>

definition DEFAULT_BATCH_SIZE :: int where
  "DEFAULT_BATCH_SIZE = 32"

text \<open>The keyword arguments of the constructor.\<close>

record init_args =
  name :: string
  scoring_method :: scoring_arg
  description :: "string option"
  reference_data :: "DataFrame option"
  reference_data_path :: "string option"
  input_column :: string
  reference_column :: string
  input_text_list :: "string list option"
  reference_output_list :: "string list option"

text \<open>
  The constructor. A suite persisted under the name is taken as it is; otherwise the suite
  is built from the arguments, without the reference column when the scoring method is
  \<open>QACorrectness\<close>, and its directory is created.
\<close>

definition TestSuite_init :: "env \<Rightarrow> init_args \<Rightarrow> TestSuite result \<times> event list" where
  "TestSuite_init env a =
     (case get_suite_if_exists env (name a) of
        None \<Rightarrow>
          (case get_scoring_method env (scoring_method a) of
             Inl e \<Rightarrow> (Inl e, [])
           | Inr sm \<Rightarrow>
              (let ref_col = (if sm = QACorrectness then None else Some (reference_column a))
               in case load_suite_from_args env (reference_data a) (reference_data_path a)
                         (input_column a) ref_col (input_text_list a) (reference_output_list a) of
                    Inl e \<Rightarrow> (Inl e, [])
                  | Inr cases \<Rightarrow>
                      (Inr \<lparr>suite_id = None,
                            suite = \<lparr>suite_name = name a, suite_scoring_method = sm,
                                     suite_description = description a, test_cases = cases,
                                     suite_metadata = initialize_metadata env\<rparr>,
                            self_test_suite_dir = create_test_suite_dir env (name a)\<rparr>,
                       [CreateTestSuiteDir (name a)])))
      | Some s \<Rightarrow>
          (Inr \<lparr>suite_id = None, suite = s, self_test_suite_dir = test_suite_dir env (name a)\<rparr>,
           [LogInfo (''Found existing test suite with name '' @ name a @ ''. Using existing suite'')]))"

text \<open>\<open>save\<close> writes \<open>suite.json\<close> in the suite's directory.\<close>

definition TestSuite_save :: "env \<Rightarrow> TestSuite \<Rightarrow> event list" where
  "TestSuite_save env self =
     [WriteText (path_join (self_test_suite_dir self) ''suite.json'') (suite_json env (suite self))]"

text \<open>The keyword arguments of \<open>run\<close>.\<close>

record run_args =
  run_name :: string
  candidate_data :: "DataFrame option"
  candidate_data_path :: "string option"
  candidate_column :: string
  candidate_output_list :: "string list option"
  context_column :: "string option"
  context_list :: "string list option"
  save :: bool
  batch_size :: int
  model_name :: "string option"
  model_version :: "string option"
  foundation_model :: "string option"
  prompt_template :: "string option"

text \<open>The call made for the chunk that starts at index \<open>i\<close>.\<close>

definition chunk_call ::
  "TestCase list \<Rightarrow> string list \<Rightarrow> string list option \<Rightarrow> int \<Rightarrow> int \<Rightarrow> batch_call result" where
  "chunk_call cases cs ctx b i =
     (case unzip_pairs (map (\<lambda>c. (input c, reference_output c)) (py_slice cases i (i + b))) of
        Inl e \<Rightarrow> Inl e
      | Inr (input_batch, ref_batch) \<Rightarrow>
          (case ctx of
             Some cl \<Rightarrow>
               Inr (RunBatch4 ref_batch (py_slice cs i (i + b)) input_batch (py_slice cl i (i + b)))
           | None \<Rightarrow>
               Inr (RunBatch3 ref_batch (py_slice cs i (i + b)) input_batch)))"

text \<open>
  The body of the \<open>for\<close> loop over the chunk starts. \<open>made\<close> holds the calls of
  \<open>run_batch\<close> made so far with what each gave; the first exception ends the loop.
\<close>

fun score_batches ::
  "ScoringMethod \<Rightarrow> TestCase list \<Rightarrow> string list \<Rightarrow> string list option \<Rightarrow> int \<Rightarrow> int list \<Rightarrow>
   score list \<Rightarrow> (batch_call \<times> score list result) list \<Rightarrow>
   score list result \<times> (batch_call \<times> score list result) list" where
  "score_batches sm cases cs ctx b [] all_scores made = (Inr all_scores, made)"
| "score_batches sm cases cs ctx b (i # starts) all_scores made =
     (case chunk_call cases cs ctx b i of
        Inl e \<Rightarrow> (Inl e, made)
      | Inr call \<Rightarrow>
          (case sm (map fst made) call of
             Inl e \<Rightarrow> (Inl e, made @ [(call, Inl e)])
           | Inr scores \<Rightarrow>
               score_batches sm cases cs ctx b starts (all_scores @ scores)
                 (made @ [(call, Inr scores)])))"

text \<open>The \<open>try\<close> block: the range is built inside it.\<close>

definition try_scoring ::
  "ScoringMethod \<Rightarrow> TestCase list \<Rightarrow> string list \<Rightarrow> string list option \<Rightarrow> int \<Rightarrow>
   score list result \<times> (batch_call \<times> score list result) list" where
  "try_scoring sm cases cs ctx b =
     (case py_range 0 (int (length cases)) b of
        Inl e \<Rightarrow> (Inl e, [])
      | Inr starts \<Rightarrow> score_batches sm cases cs ctx b starts [] [])"

definition batch_events :: "(batch_call \<times> score list result) list \<Rightarrow> event list" where
  "batch_events made = map (\<lambda>(call, res). RunBatch call res) made"

definition mismatch_error :: "nat \<Rightarrow> nat \<Rightarrow> exn" where
  "mismatch_error got expected =
     Exn UserValueError
       (''candidate data has '' @ str_nat got @ '' tests but expected '' @ str_nat expected @ '' tests'')
       None"

definition pair_outputs :: "string list \<Rightarrow> score list \<Rightarrow> TestCaseOutput list" where
  "pair_outputs cs all_scores = map (\<lambda>(out, sc). \<lparr>output_text = out, score = sc\<rparr>) (zip cs all_scores)"

text \<open>
  \<open>run\<close>. After the first line \<open>cs\<close> is the resolved \<open>candidate_output_list\<close> and \<open>ctx\<close>
  the resolved \<open>context_list\<close>. The handler is \<open>except Exception\<close>: it takes what derives
  from \<open>Exception\<close> and lets anything else through. \<open>if run_dir:\<close> holds exactly when a
  directory was created, since a path is truthy.
\<close>

definition TestSuite_run :: "env \<Rightarrow> TestSuite \<Rightarrow> run_args \<Rightarrow> TestRun result \<times> event list" where
  "TestSuite_run env self a =
     (case load_run_data_from_args env (candidate_data a) (candidate_data_path a)
             (candidate_column a) (candidate_output_list a) (context_column a) (context_list a) of
        Inl e \<Rightarrow> (Inl e, [])
      | Inr (cs, ctx) \<Rightarrow>
          if length cs \<noteq> length (test_cases (suite self)) then
            (Inl (mismatch_error (length cs) (length (test_cases (suite self)))), [])
          else
            (case load_scoring_method env (suite_scoring_method (suite self)) of
               Inl e \<Rightarrow> (Inl e, [])
             | Inr sm \<Rightarrow>
                (let run_dir = (if save a
                                then Some (create_run_dir env (suite_name (suite self)) (run_name a))
                                else None);
                     ev_dir = (if save a
                               then [CreateRunDir (suite_name (suite self)) (run_name a)] else []);
                     (res, made) = try_scoring sm (test_cases (suite self)) cs ctx (batch_size a);
                     ev_try = ev_dir @ batch_events made
                 in case res of
                      Inl e \<Rightarrow>
                        if is_Exception (exn_class e) then
                          (Inl (Exn ArthurInternalError (''failed to create run '' @ run_name a) (Some e)),
                           ev_try @ [LogError (''failed to create run: '' @ exn_str e)]
                             @ (case run_dir of Some d \<Rightarrow> [CleanUpRun d] | None \<Rightarrow> []))
                        else (Inl e, ev_try)
                    | Inr all_scores \<Rightarrow>
                        (let run = \<lparr>tr_name = run_name a,
                                    test_case_outputs = pair_outputs cs all_scores,
                                    tr_model_name = model_name a,
                                    tr_model_version = model_version a,
                                    tr_foundation_model = foundation_model a,
                                    tr_prompt_template = prompt_template a,
                                    tr_run_dir = run_dir,
                                    tr_metadata = initialize_metadata env\<rparr>
                         in (Inr run,
                             ev_try @ (if save a then TestSuite_save env self @ [RunSave run]
                                       else []))))))"


section \<open>Reading a run\<close>

text \<open>The calls of \<open>run_batch\<close> among the events, in the order they were made.\<close>

fun scoring_calls :: "event list \<Rightarrow> (batch_call \<times> score list result) list" where
  "scoring_calls [] = []"
| "scoring_calls (RunBatch call res # evs) = (call, res) # scoring_calls evs"
| "scoring_calls (ev # evs) = scoring_calls evs"

text \<open>The events that touch the disk.\<close>

fun disk_events :: "event list \<Rightarrow> event list" where
  "disk_events [] = []"
| "disk_events (RunBatch call res # evs) = disk_events evs"
| "disk_events (LogInfo m # evs) = disk_events evs"
| "disk_events (LogError m # evs) = disk_events evs"
| "disk_events (ev # evs) = ev # disk_events evs"

fun scores_of :: "score list result \<Rightarrow> score list" where
  "scores_of (Inr s) = s"
| "scores_of (Inl e) = []"

text \<open>
  A scoring method that applies one function to each index of its aligned slices: \<open>f\<close>
  when called without context, \<open>g\<close> with it.
\<close>

fun per_index ::
  "(string option \<Rightarrow> string \<Rightarrow> string \<Rightarrow> score) \<Rightarrow>
   (string option \<Rightarrow> string \<Rightarrow> string \<Rightarrow> string \<Rightarrow> score) \<Rightarrow> batch_call \<Rightarrow> score list" where
  "per_index f g (RunBatch3 rs cs ins) = map (\<lambda>(r, c, i). f r c i) (zip rs (zip cs ins))"
| "per_index f g (RunBatch4 rs cs ins xs) =
     map (\<lambda>(r, c, i, x). g r c i x) (zip rs (zip cs (zip ins xs)))"

text \<open>The single call that would score the whole suite at once.\<close>

definition whole_call :: "TestCase list \<Rightarrow> string list \<Rightarrow> string list option \<Rightarrow> batch_call" where
  "whole_call cases cs ctx =
     (case ctx of
        Some cl \<Rightarrow> RunBatch4 (map reference_output cases) cs (map input cases) cl
      | None \<Rightarrow> RunBatch3 (map reference_output cases) cs (map input cases))"


text \<open>
  With a positive batch size \<open>B\<close>, \<open>n\<close> cases are scored in \<open>chunk_count n B\<close> chunks,
  and \<open>chunk_of\<close> is the call for chunk number \<open>k\<close>, counted from 0.
\<close>

definition chunk_count :: "nat \<Rightarrow> nat \<Rightarrow> nat" where
  "chunk_count n B = (n + B - 1) div B"

definition chunk_of ::
  "TestCase list \<Rightarrow> string list \<Rightarrow> string list option \<Rightarrow> nat \<Rightarrow> nat \<Rightarrow> batch_call" where
  "chunk_of cases cs ctx B k =
     (case ctx of
        Some cl \<Rightarrow>
          RunBatch4 (map reference_output (take B (drop (k * B) cases))) (take B (drop (k * B) cs))
            (map input (take B (drop (k * B) cases))) (take B (drop (k * B) cl))
      | None \<Rightarrow>
          RunBatch3 (map reference_output (take B (drop (k * B) cases))) (take B (drop (k * B) cs))
            (map input (take B (drop (k * B) cases))))"


section \<open>An environment in memory\<close>

text \<open>
  Modelled from the spec: the resolver \<open>_load_suite_from_args\<close> of
  \<open>arthur_bench.run.utils\<close> is not among the sources. The Suite Builder takes a table
  with named input and reference columns, a path to such a table, or parallel lists of
  input strings and reference strings, and produces the test cases in order; the first
  usable source wins, and with no usable source it fails with a user input error.
  \<open>read_table\<close> stands for reading the table at a path.
\<close>

definition cases_from_lists :: "string list \<Rightarrow> string list option \<Rightarrow> TestCase list" where
  "cases_from_lists inputs refs_opt =
     (case refs_opt of
        Some rs \<Rightarrow> map (\<lambda>(i, r). \<lparr>input = i, reference_output = Some r\<rparr>) (zip inputs rs)
      | None \<Rightarrow> map (\<lambda>i. \<lparr>input = i, reference_output = None\<rparr>) inputs)"

definition cases_from_table :: "DataFrame \<Rightarrow> string \<Rightarrow> string option \<Rightarrow> TestCase list result" where
  "cases_from_table df in_col ref_col =
     (case map_of df in_col of
        None \<Rightarrow> Inl (Exn UserInputError ''invalid or missing reference data'' None)
      | Some inputs \<Rightarrow>
          (case ref_col of
             None \<Rightarrow> Inr (cases_from_lists inputs None)
           | Some rc \<Rightarrow>
               (case map_of df rc of
                  None \<Rightarrow> Inl (Exn UserInputError ''invalid or missing reference data'' None)
                | Some rs \<Rightarrow> Inr (cases_from_lists inputs (Some rs)))))"

definition spec_load_suite_from_args ::
  "(string \<Rightarrow> DataFrame option) \<Rightarrow> DataFrame option \<Rightarrow> string option \<Rightarrow> string \<Rightarrow> string option \<Rightarrow>
   string list option \<Rightarrow> string list option \<Rightarrow> TestCase list result" where
  "spec_load_suite_from_args read_table data data_path in_col ref_col inputs refs_opt =
     (case data of
        Some df \<Rightarrow> cases_from_table df in_col ref_col
      | None \<Rightarrow>
          (case Option.bind data_path read_table of
             Some df \<Rightarrow> cases_from_table df in_col ref_col
           | None \<Rightarrow>
               (case inputs of
                  Some ins \<Rightarrow> Inr (cases_from_lists ins refs_opt)
                | None \<Rightarrow> Inl (Exn UserInputError ''invalid or missing reference data'' None))))"

text \<open>
  Scoring methods to run the functions on: exact match against the reference, one that
  raises on its second call, one that returns no score at all, and one whose call is
  interrupted from the keyboard.
\<close>

definition exact_match :: ScoringMethod where
  "exact_match made call =
     Inr (per_index (\<lambda>r c i. if r = Some c then 1 else 0) (\<lambda>r c i x. if r = Some c then 1 else 0) call)"

definition raises_on_second :: ScoringMethod where
  "raises_on_second made call =
     (if length made = 1 then Inl (Exn (OtherException ''RuntimeError'') ''backend down'' None)
      else exact_match made call)"

definition no_scores :: ScoringMethod where
  "no_scores made call = Inr []"

definition interrupted :: ScoringMethod where
  "interrupted made call = Inl (Exn (NonException ''KeyboardInterrupt'') [] None)"

definition mem_env :: env where
  "mem_env =
     \<lparr>get_suite_if_exists =
        (\<lambda>n. if n = ''sums''
              then Some \<lparr>suite_name = ''sums'', suite_scoring_method = OtherScoring ''exact_match'',
                         suite_description = None,
                         test_cases = [\<lparr>input = ''2+2?'', reference_output = Some ''4''\<rparr>,
                                       \<lparr>input = ''3+3?'', reference_output = Some ''6''\<rparr>],
                         suite_metadata = []\<rparr>
              else None),
      get_scoring_method =
        (\<lambda>m. case m of EnumArg e \<Rightarrow> Inr e
              | StrArg s \<Rightarrow> if s = ''qa_correctness'' then Inr QACorrectness else Inr (OtherScoring s)),
      load_suite_from_args = spec_load_suite_from_args (\<lambda>p. None),
      initialize_metadata = [(''bench_version'', ''0'')],
      create_test_suite_dir = (\<lambda>n. Path [''bench'', n]),
      test_suite_dir = (\<lambda>n. Path [''bench'', n]),
      load_run_data_from_args =
        (\<lambda>data data_path col outs ctx_col ctx.
           case outs of
             Some cs \<Rightarrow> Inr (cs, ctx)
           | None \<Rightarrow> Inl (Exn UserInputError ''invalid or missing candidate data'' None)),
      load_scoring_method =
        (\<lambda>m. if m = OtherScoring ''raises_on_second'' then Inr raises_on_second
              else if m = OtherScoring ''no_scores'' then Inr no_scores
              else if m = OtherScoring ''interrupted'' then Inr interrupted
              else Inr exact_match),
      create_run_dir = (\<lambda>s r. Path [''bench'', s, r]),
      suite_json = (\<lambda>s. suite_name s)\<rparr>"

definition sums_cases :: "TestCase list" where
  "sums_cases = [\<lparr>input = ''2+2?'', reference_output = Some ''4''\<rparr>,
                 \<lparr>input = ''3+3?'', reference_output = Some ''6''\<rparr>]"

definition many_cases :: "nat \<Rightarrow> TestCase list" where
  "many_cases n = replicate n \<lparr>input = ''2+2?'', reference_output = Some ''4''\<rparr>"

definition suite_with :: "string \<Rightarrow> TestCase list \<Rightarrow> TestSuite" where
  "suite_with method cases =
     \<lparr>suite_id = None,
      suite = \<lparr>suite_name = ''sums'', suite_scoring_method = OtherScoring method,
               suite_description = None, test_cases = cases, suite_metadata = []\<rparr>,
      self_test_suite_dir = Path [''bench'', ''sums'']\<rparr>"

definition init_with ::
  "string \<Rightarrow> scoring_arg \<Rightarrow> string list option \<Rightarrow> string list option \<Rightarrow> init_args" where
  "init_with n m inputs refs_opt =
     \<lparr>name = n, scoring_method = m, description = None, reference_data = None,
      reference_data_path = None, input_column = ''input'',
      reference_column = ''reference_output'', input_text_list = inputs,
      reference_output_list = refs_opt\<rparr>"

definition args_with :: "string list \<Rightarrow> string list option \<Rightarrow> bool \<Rightarrow> int \<Rightarrow> run_args" where
  "args_with outs ctx sv b =
     \<lparr>run_name = ''r1'', candidate_data = None, candidate_data_path = None,
      candidate_column = ''candidate_output'', candidate_output_list = Some outs,
      context_column = None, context_list = ctx, save = sv, batch_size = b,
      model_name = None, model_version = None, foundation_model = None,
      prompt_template = None\<rparr>"


section \<open>The scoring loop\<close>

lemma score_batches_step:
  assumes "chunk_call cases cs ctx b i = Inr call" and "sm (map fst made) call = Inr scores"
  shows "score_batches sm cases cs ctx b (i # starts) acc made =
         score_batches sm cases cs ctx b starts (acc @ scores) (made @ [(call, Inr scores)])"
  using assms by simp

lemma score_batches_calls:
  "score_batches sm cases cs ctx b starts acc made = (res, made') \<Longrightarrow>
   \<exists>new. made' = made @ new \<and> length new \<le> length starts \<and>
         (\<forall>k < length new. chunk_call cases cs ctx b (starts ! k) = Inr (fst (new ! k)) \<and>
              snd (new ! k) = sm (map fst (made @ take k new)) (fst (new ! k)))"
proof (induction starts arbitrary: acc made)
  case Nil
  then show ?case by simp
next
  case (Cons i starts)
  show ?case
  proof (cases "chunk_call cases cs ctx b i")
    case (Inl e)
    with Cons.prems show ?thesis by simp
  next
    case call: (Inr call)
    show ?thesis
    proof (cases "sm (map fst made) call")
      case (Inl e)
      with call Cons.prems have "made' = made @ [(call, Inl e)]" by auto
      with call Inl show ?thesis by simp
    next
      case (Inr scores)
      let ?made = "made @ [(call, Inr scores)]"
      from Cons.prems score_batches_step[where sm=sm and made=made, OF call Inr]
      have run: "score_batches sm cases cs ctx b starts (acc @ scores) ?made = (res, made')"
        by simp
      from Cons.IH[OF run] obtain new where
        m: "made' = ?made @ new" and l: "length new \<le> length starts" and
        c: "\<forall>k < length new. chunk_call cases cs ctx b (starts ! k) = Inr (fst (new ! k)) \<and>
              snd (new ! k) = sm (map fst (?made @ take k new)) (fst (new ! k))"
        by blast
      let ?new = "(call, Inr scores) # new"
      have "made' = made @ ?new" using m by simp
      moreover have "length ?new \<le> length (i # starts)" using l by simp
      moreover have "\<forall>k < length ?new.
          chunk_call cases cs ctx b ((i # starts) ! k) = Inr (fst (?new ! k)) \<and>
          snd (?new ! k) = sm (map fst (made @ take k ?new)) (fst (?new ! k))"
      proof (intro allI impI)
        fix k assume k: "k < length ?new"
        show "chunk_call cases cs ctx b ((i # starts) ! k) = Inr (fst (?new ! k)) \<and>
          snd (?new ! k) = sm (map fst (made @ take k ?new)) (fst (?new ! k))"
        proof (cases k)
          case 0
          with call Inr show ?thesis by simp
        next
          case (Suc j)
          with k have "j < length new" by simp
          with c Suc show ?thesis by simp
        qed
      qed
      ultimately show ?thesis by blast
    qed
  qed
qed

lemma score_batches_ok:
  "score_batches sm cases cs ctx b starts acc made = (Inr all_scores, made') \<Longrightarrow>
   \<exists>new. made' = made @ new \<and> length new = length starts \<and>
     (\<forall>cr \<in> set new. \<exists>s. snd cr = Inr s) \<and>
     all_scores = acc @ concat (map (scores_of \<circ> snd) new)"
proof (induction starts arbitrary: acc made)
  case Nil
  then show ?case by simp
next
  case (Cons i starts)
  from Cons.prems obtain call where call: "chunk_call cases cs ctx b i = Inr call"
    by (cases "chunk_call cases cs ctx b i") auto
  from Cons.prems call obtain scores where scores: "sm (map fst made) call = Inr scores"
    by (cases "sm (map fst made) call") auto
  let ?made = "made @ [(call, Inr scores)]"
  from Cons.prems score_batches_step[where sm=sm and made=made, OF call scores]
  have run: "score_batches sm cases cs ctx b starts (acc @ scores) ?made = (Inr all_scores, made')"
    by simp
  from Cons.IH[OF run] obtain new where
    m: "made' = ?made @ new" and l: "length new = length starts" and
    ok: "\<forall>cr \<in> set new. \<exists>s. snd cr = Inr s" and
    a: "all_scores = (acc @ scores) @ concat (map (scores_of \<circ> snd) new)"
    by blast
  let ?new = "(call, Inr scores) # new"
  have "made' = made @ ?new" using m by simp
  moreover have "length ?new = length (i # starts)" using l by simp
  moreover have "\<forall>cr \<in> set ?new. \<exists>s. snd cr = Inr s" using ok by simp
  moreover have "all_scores = acc @ concat (map (scores_of \<circ> snd) ?new)" using a by simp
  ultimately show ?case by blast
qed

lemma score_batches_raise:
  "score_batches sm cases cs ctx b starts acc made = (Inl e, made') \<Longrightarrow>
   \<exists>new. made' = made @ new \<and> (\<forall>cr \<in> set (butlast new). \<exists>s. snd cr = Inr s) \<and>
         ((\<exists>c. new \<noteq> [] \<and> last new = (c, Inl e)) \<or>
          ((\<forall>cr \<in> set new. \<exists>s. snd cr = Inr s) \<and> length new < length starts \<and>
           chunk_call cases cs ctx b (starts ! length new) = Inl e))"
proof (induction starts arbitrary: acc made)
  case Nil
  then show ?case by simp
next
  case (Cons i starts)
  show ?case
  proof (cases "chunk_call cases cs ctx b i")
    case (Inl e')
    with Cons.prems have "made' = made @ []" "e' = e" by auto
    with Inl show ?thesis by auto
  next
    case call: (Inr call)
    show ?thesis
    proof (cases "sm (map fst made) call")
      case (Inl e')
      with call Cons.prems have "made' = made @ [(call, Inl e)]" by auto
      then show ?thesis by auto
    next
      case (Inr scores)
      let ?made = "made @ [(call, Inr scores)]"
      from Cons.prems score_batches_step[where sm=sm and made=made, OF call Inr]
      have run: "score_batches sm cases cs ctx b starts (acc @ scores) ?made = (Inl e, made')"
        by simp
      from Cons.IH[OF run] obtain new where
        m: "made' = ?made @ new" and
        ok: "\<forall>cr \<in> set (butlast new). \<exists>s. snd cr = Inr s" and
        d: "(\<exists>c. new \<noteq> [] \<and> last new = (c, Inl e)) \<or>
          ((\<forall>cr \<in> set new. \<exists>s. snd cr = Inr s) \<and> length new < length starts \<and>
           chunk_call cases cs ctx b (starts ! length new) = Inl e)"
        by blast
      let ?new = "(call, Inr scores) # new"
      have "made' = made @ ?new" using m by simp
      moreover have "\<forall>cr \<in> set (butlast ?new). \<exists>s. snd cr = Inr s" using ok by simp
      moreover have "(\<exists>c. ?new \<noteq> [] \<and> last ?new = (c, Inl e)) \<or>
          ((\<forall>cr \<in> set ?new. \<exists>s. snd cr = Inr s) \<and> length ?new < length (i # starts) \<and>
           chunk_call cases cs ctx b ((i # starts) ! length ?new) = Inl e)"
        using d by auto
      ultimately show ?thesis by blast
    qed
  qed
qed


section \<open>The events of a run\<close>

lemma scoring_calls_append: "scoring_calls (xs @ ys) = scoring_calls xs @ scoring_calls ys"
  by (induction xs rule: scoring_calls.induct) simp_all

lemma scoring_calls_batch_events: "scoring_calls (batch_events made) = made"
  by (induction made) (auto simp: batch_events_def)

lemma disk_events_append: "disk_events (xs @ ys) = disk_events xs @ disk_events ys"
  by (induction xs rule: disk_events.induct) simp_all

lemma disk_events_batch_events: "disk_events (batch_events made) = []"
  by (induction made) (auto simp: batch_events_def)

lemma run_reaches_scoring:
  assumes "load_run_data_from_args env (candidate_data a) (candidate_data_path a)
             (candidate_column a) (candidate_output_list a) (context_column a) (context_list a)
           = Inr (cs, ctx)"
    and "length cs = length (test_cases (suite self))"
    and "load_scoring_method env (suite_scoring_method (suite self)) = Inr sm"
    and "try_scoring sm (test_cases (suite self)) cs ctx (batch_size a) = (tres, made)"
  shows "TestSuite_run env self a =
     (case tres of
        Inl e \<Rightarrow>
          if is_Exception (exn_class e) then
            (Inl (Exn ArthurInternalError (''failed to create run '' @ run_name a) (Some e)),
             (if save a then [CreateRunDir (suite_name (suite self)) (run_name a)] else [])
               @ batch_events made @ [LogError (''failed to create run: '' @ exn_str e)]
               @ (if save a then [CleanUpRun (create_run_dir env (suite_name (suite self)) (run_name a))]
                  else []))
          else (Inl e, (if save a then [CreateRunDir (suite_name (suite self)) (run_name a)] else [])
                   @ batch_events made)
      | Inr all_scores \<Rightarrow>
          (Inr \<lparr>tr_name = run_name a,
                test_case_outputs = pair_outputs cs all_scores,
                tr_model_name = model_name a,
                tr_model_version = model_version a,
                tr_foundation_model = foundation_model a,
                tr_prompt_template = prompt_template a,
                tr_run_dir = (if save a
                              then Some (create_run_dir env (suite_name (suite self)) (run_name a))
                              else None),
                tr_metadata = initialize_metadata env\<rparr>,
           (if save a then [CreateRunDir (suite_name (suite self)) (run_name a)] else [])
             @ batch_events made
             @ (if save a
                then [WriteText (path_join (self_test_suite_dir self) ''suite.json'')
                        (suite_json env (suite self)),
                      RunSave \<lparr>tr_name = run_name a,
                        test_case_outputs = pair_outputs cs all_scores,
                        tr_model_name = model_name a,
                        tr_model_version = model_version a,
                        tr_foundation_model = foundation_model a,
                        tr_prompt_template = prompt_template a,
                        tr_run_dir = Some (create_run_dir env (suite_name (suite self)) (run_name a)),
                        tr_metadata = initialize_metadata env\<rparr>]
                else [])))"
  using assms by (simp add: TestSuite_run_def TestSuite_save_def Let_def split: sum.splits)

lemma run_without_scoring:
  assumes "TestSuite_run env self a = (res, evs)"
  shows "(\<exists>cs ctx sm tres made.
            load_run_data_from_args env (candidate_data a) (candidate_data_path a)
             (candidate_column a) (candidate_output_list a) (context_column a) (context_list a)
           = Inr (cs, ctx) \<and> length cs = length (test_cases (suite self)) \<and>
           load_scoring_method env (suite_scoring_method (suite self)) = Inr sm \<and>
           try_scoring sm (test_cases (suite self)) cs ctx (batch_size a) = (tres, made))
         \<or> evs = []"
  using assms
  by (auto simp: TestSuite_run_def split: sum.splits prod.splits if_splits)


section \<open>The try block and the pairing\<close>

lemma try_scoring_zero:
  "try_scoring sm cases cs ctx 0 = (Inl (Exn ValueError ''range() arg 3 must not be zero'' None), [])"
  by (simp add: try_scoring_def py_range_def)

lemma try_scoring_negative:
  "b < 0 \<Longrightarrow> try_scoring sm cases cs ctx b = (Inr [], [])"
  by (simp add: try_scoring_def py_range_def)

lemma try_scoring_ok:
  assumes "try_scoring sm cases cs ctx b = (Inr all_scores, made)"
  shows "(\<forall>cr \<in> set made. \<exists>s. snd cr = Inr s) \<and>
         all_scores = concat (map (scores_of \<circ> snd) made)"
proof (cases "py_range 0 (int (length cases)) b")
  case (Inl e')
  with assms show ?thesis by (simp add: try_scoring_def)
next
  case (Inr starts)
  with assms have "score_batches sm cases cs ctx b starts [] [] = (Inr all_scores, made)"
    by (simp add: try_scoring_def)
  from score_batches_ok[OF this] show ?thesis by simp
qed

lemma try_scoring_raise:
  assumes "try_scoring sm cases cs ctx b = (Inl e, made)"
  shows "(\<exists>c. made \<noteq> [] \<and> last made = (c, Inl e) \<and> (\<forall>cr \<in> set (butlast made). \<exists>s. snd cr = Inr s))
         \<or> (\<forall>cr \<in> set made. \<exists>s. snd cr = Inr s)"
proof (cases "py_range 0 (int (length cases)) b")
  case (Inl e')
  with assms show ?thesis by (simp add: try_scoring_def)
next
  case (Inr starts)
  with assms have "score_batches sm cases cs ctx b starts [] [] = (Inl e, made)"
    by (simp add: try_scoring_def)
  from score_batches_raise[OF this] show ?thesis by auto
qed


lemma try_scoring_raised_call:
  assumes t: "try_scoring sm cases cs ctx b = (tres, made)"
    and m: "(call, Inl e) \<in> set made"
  shows "tres = Inl e \<and> (\<exists>before. made = before @ [(call, Inl e)] \<and>
                            (\<forall>cr \<in> set before. \<exists>s. snd cr = Inr s))"
proof (cases tres)
  case (Inr all_scores)
  with t have "\<forall>cr \<in> set made. \<exists>s. snd cr = Inr s"
    using try_scoring_ok[of sm cases cs ctx b all_scores made] by simp
  with m have "\<exists>s. snd (call, Inl e :: score list result) = Inr s" by blast
  then show ?thesis by simp
next
  case (Inl e')
  with t have r: "try_scoring sm cases cs ctx b = (Inl e', made)" by simp
  have not_all: "\<not> (\<forall>cr \<in> set made. \<exists>s. snd cr = Inr s)"
  proof
    assume "\<forall>cr \<in> set made. \<exists>s. snd cr = Inr s"
    with m have "\<exists>s. snd (call, Inl e :: score list result) = Inr s" by blast
    then show False by simp
  qed
  with try_scoring_raise[OF r]
  obtain c where ne: "made \<noteq> []" and l: "last made = (c, Inl e')"
    and b: "\<forall>cr \<in> set (butlast made). \<exists>s. snd cr = Inr s"
    by blast
  have mk: "made = butlast made @ [(c, Inl e')]"
    using ne l append_butlast_last_id[of made] by simp
  have "(call, Inl e) \<notin> set (butlast made)"
  proof
    assume "(call, Inl e) \<in> set (butlast made)"
    with b have "\<exists>s. snd (call, Inl e :: score list result) = Inr s" by blast
    then show False by simp
  qed
  moreover from m mk have "(call, Inl e) \<in> set (butlast made @ [(c, Inl e')])" by simp
  ultimately have "(call, Inl e) = (c, Inl e')" by simp
  then have "c = call" "e' = e" by simp_all
  with mk b Inl show ?thesis by blast
qed


lemma run_scoring_calls:
  assumes "load_run_data_from_args env (candidate_data a) (candidate_data_path a)
             (candidate_column a) (candidate_output_list a) (context_column a) (context_list a)
           = Inr (cs, ctx)"
    and "length cs = length (test_cases (suite self))"
    and "load_scoring_method env (suite_scoring_method (suite self)) = Inr sm"
    and "try_scoring sm (test_cases (suite self)) cs ctx (batch_size a) = (tres, made)"
  shows "scoring_calls (snd (TestSuite_run env self a)) = made"
proof (cases tres)
  case (Inl e)
  show ?thesis
    unfolding run_reaches_scoring[OF assms] Inl
    by (simp add: scoring_calls_append scoring_calls_batch_events)
next
  case (Inr all_scores)
  show ?thesis
    unfolding run_reaches_scoring[OF assms] Inr
    by (simp add: scoring_calls_append scoring_calls_batch_events)
qed

lemma RunBatch_in_scoring_calls:
  "RunBatch call res \<in> set evs \<Longrightarrow> (call, res) \<in> set (scoring_calls evs)"
  by (induction evs rule: scoring_calls.induct) auto

lemma pair_outputs_outputs:
  "map output_text (pair_outputs cs all_scores) = take (length all_scores) cs"
  by (induction cs all_scores rule: list_induct2') (simp_all add: pair_outputs_def)

lemma pair_outputs_scores:
  "map score (pair_outputs cs all_scores) = take (length cs) all_scores"
  by (induction cs all_scores rule: list_induct2') (simp_all add: pair_outputs_def)

lemma length_pair_outputs:
  "length (pair_outputs cs all_scores) = min (length cs) (length all_scores)"
  by (simp add: pair_outputs_def)


section \<open>Chunks\<close>

lemma chunk_count_int:
  assumes "0 < b" and "0 < n"
  shows "nat ((int n - 1) div b + 1) = chunk_count n (nat b)"
proof -
  define B where "B = nat b"
  define m where "m = n - 1"
  have b: "b = int B" and B: "0 < B" using assms(1) by (simp_all add: B_def)
  have n: "n = Suc m" using assms(2) by (simp add: m_def)
  have "(int n - 1) div b + 1 = int m div int B + 1" unfolding n b by simp
  also have "\<dots> = int (m div B + 1)" by (simp add: zdiv_int)
  finally have "nat ((int n - 1) div b + 1) = m div B + 1" by simp
  moreover have "chunk_count n (nat b) = (m + B) div B"
    unfolding chunk_count_def n B_def[symmetric] by simp
  moreover have "(m + B) div B = m div B + 1" using B by simp
  ultimately show ?thesis by simp
qed

lemma py_range_pos:
  assumes "0 < b"
  shows "py_range 0 (int n) b = Inr (map (\<lambda>k. int k * b) [0 ..< chunk_count n (nat b)])"
proof (cases "n = 0")
  case True
  then show ?thesis using assms by (simp add: py_range_def chunk_count_def)
next
  case False
  then have "nat ((int n - 1) div b + 1) = chunk_count n (nat b)"
    using chunk_count_int[OF assms] by simp
  then show ?thesis using assms False by (simp add: py_range_def)
qed

lemma chunk_count_covers:
  assumes "0 < B"
  shows "n \<le> chunk_count n B * B"
proof -
  have "n + B - 1 < B + ((n + B - 1) div B) * B"
    using assms by (rule dividend_less_div_times)
  then have "n + B - 1 < B + chunk_count n B * B" by (simp add: chunk_count_def)
  then show ?thesis using assms by linarith
qed

lemma chunk_count_start:
  assumes "0 < B" and "k < chunk_count n B"
  shows "k * B < n"
proof -
  from assms(2) have "Suc k \<le> (n + B - 1) div B" by (simp add: chunk_count_def)
  then have "Suc k * B \<le> ((n + B - 1) div B) * B" by (rule mult_le_mono1)
  also have "\<dots> \<le> n + B - 1" by (rule div_times_less_eq_dividend)
  finally have "k * B + B \<le> n + B - 1" by simp
  then show ?thesis using assms(1) by linarith
qed

lemma slice_index_nat: "slice_index n (int m) = min n m"
  by (simp add: slice_index_def)

lemma py_slice_nat: "py_slice xs (int lo) (int hi) = take (hi - lo) (drop lo xs)"
proof (cases "lo \<le> length xs")
  case True
  show ?thesis
  proof (cases "hi \<le> length xs")
    case True
    then show ?thesis
      unfolding py_slice_def Let_def slice_index_nat using \<open>lo \<le> length xs\<close>
      by (simp add: min_absorb2)
  next
    case False
    then have "length (drop lo xs) \<le> hi - lo" by simp
    then have "take (hi - lo) (drop lo xs) = drop lo xs" by (rule take_all)
    moreover have "take (length xs - lo) (drop lo xs) = drop lo xs" by simp
    ultimately show ?thesis
      unfolding py_slice_def Let_def slice_index_nat using False \<open>lo \<le> length xs\<close>
      by (simp add: min_absorb1 min_absorb2)
  qed
next
  case False
  then show ?thesis
    unfolding py_slice_def Let_def slice_index_nat by simp
qed

lemma py_slice_chunk:
  assumes "0 < b"
  shows "py_slice xs (int k * b) (int k * b + b) = take (nat b) (drop (k * nat b) xs)"
proof -
  define B where "B = nat b"
  have b: "b = int B" using assms by (simp add: B_def)
  have lo: "int k * int B = int (k * B)" by simp
  have hi: "int (k * B) + int B = int (k * B + B)" by simp
  have "py_slice xs (int k * int B) (int k * int B + int B) = take B (drop (k * B) xs)"
    unfolding lo hi py_slice_nat by simp
  then show ?thesis using assms by (simp add: B_def)
qed

lemma chunk_call_form:
  assumes "chunk_call cases cs ctx b i = Inr call"
  shows "call =
     (case ctx of
        Some cl \<Rightarrow>
          RunBatch4 (map reference_output (py_slice cases i (i + b))) (py_slice cs i (i + b))
            (map input (py_slice cases i (i + b))) (py_slice cl i (i + b))
      | None \<Rightarrow>
          RunBatch3 (map reference_output (py_slice cases i (i + b))) (py_slice cs i (i + b))
            (map input (py_slice cases i (i + b))))"
  using assms
  by (auto simp: chunk_call_def unzip_pairs_def comp_def split: option.splits if_splits)

lemma try_scoring_calls:
  assumes t: "try_scoring sm cases cs ctx b = (tres, made)" and k: "k < length made"
  shows "0 < b \<and> k < chunk_count (length cases) (nat b) \<and>
         chunk_call cases cs ctx b (int k * b) = Inr (fst (made ! k)) \<and>
         snd (made ! k) = sm (map fst (take k made)) (fst (made ! k))"
proof -
  have pos: "0 < b"
  proof (rule ccontr)
    assume "\<not> 0 < b"
    then have "b = 0 \<or> b < 0" by linarith
    then have "made = []"
      using t try_scoring_zero[of sm cases cs ctx] try_scoring_negative[of b sm cases cs ctx]
      by auto
    with k show False by simp
  qed
  let ?starts = "map (\<lambda>k. int k * b) [0 ..< chunk_count (length cases) (nat b)]"
  have "score_batches sm cases cs ctx b ?starts [] [] = (tres, made)"
    using t py_range_pos[OF pos, of "length cases"] by (simp add: try_scoring_def)
  from score_batches_calls[OF this] obtain new where
    new: "made = [] @ new" and len': "length new \<le> length ?starts" and
    calls': "\<forall>k < length new. chunk_call cases cs ctx b (?starts ! k) = Inr (fst (new ! k)) \<and>
              snd (new ! k) = sm (map fst ([] @ take k new)) (fst (new ! k))"
    by blast
  from new have mn: "new = made" by simp
  from len' have len: "length made \<le> chunk_count (length cases) (nat b)"
    unfolding mn by simp
  from calls' k have calls: "chunk_call cases cs ctx b (?starts ! k) = Inr (fst (made ! k))"
    "snd (made ! k) = sm (map fst (take k made)) (fst (made ! k))"
    unfolding mn by simp_all
  from len k have kc: "k < chunk_count (length cases) (nat b)" by simp
  then have "?starts ! k = int k * b" by simp
  with calls have "chunk_call cases cs ctx b (int k * b) = Inr (fst (made ! k))"
    by simp
  with pos kc calls(2) show ?thesis by simp
qed

lemma try_scoring_ok_count:
  assumes t: "try_scoring sm cases cs ctx b = (Inr all_scores, made)" and pos: "0 < b"
  shows "length made = chunk_count (length cases) (nat b)"
proof -
  let ?starts = "map (\<lambda>k. int k * b) [0 ..< chunk_count (length cases) (nat b)]"
  have "score_batches sm cases cs ctx b ?starts [] [] = (Inr all_scores, made)"
    using t py_range_pos[OF pos, of "length cases"] by (simp add: try_scoring_def)
  from score_batches_ok[OF this] show ?thesis by simp
qed

lemma concat_chunks_nth:
  assumes "0 < B"
    and "\<forall>k < length xss. length (xss ! k) = min B (n - k * B)"
    and "n \<le> length xss * B"
    and "i < n"
  shows "i div B < length xss \<and> i mod B < length (xss ! (i div B)) \<and>
         concat xss ! i = xss ! (i div B) ! (i mod B)"
  using assms
proof (induction xss arbitrary: n i)
  case Nil
  then show ?case by simp
next
  case (Cons xs rest)
  from Cons.prems(2) have lx: "length xs = min B n" by fastforce
  show ?case
  proof (cases "i < B")
    case True
    with Cons.prems(4) lx have "i < length xs" by simp
    with True show ?thesis by (simp add: nth_append)
  next
    case False
    then have iB: "B \<le> i" by simp
    with Cons.prems(4) have lxB: "length xs = B" using lx by simp
    have h2: "\<forall>k < length rest. length (rest ! k) = min B ((n - B) - k * B)"
    proof (intro allI impI)
      fix k assume "k < length rest"
      then have "Suc k < length (xs # rest)" by simp
      with Cons.prems(2) have "length ((xs # rest) ! Suc k) = min B (n - Suc k * B)" by blast
      then show "length (rest ! k) = min B ((n - B) - k * B)" by (simp add: diff_diff_left)
    qed
    have h3: "n - B \<le> length rest * B" using Cons.prems(3) by simp
    have h4: "i - B < n - B" using Cons.prems(4) iB by simp
    from Cons.IH[OF Cons.prems(1) h2 h3 h4] have
      IH: "(i - B) div B < length rest" "(i - B) mod B < length (rest ! ((i - B) div B))"
        "concat rest ! (i - B) = rest ! ((i - B) div B) ! ((i - B) mod B)"
      by simp_all
    have d: "i div B = Suc ((i - B) div B)" using iB Cons.prems(1) by (simp add: le_div_geq)
    have m: "i mod B = (i - B) mod B" using iB by (simp add: le_mod_geq)
    have c: "concat (xs # rest) ! i = concat rest ! (i - B)"
      using lxB iB by (simp add: nth_append)
    show ?thesis unfolding d m c using IH by simp
  qed
qed

lemma length_concat_chunks:
  assumes "0 < B"
    and "\<forall>k < length xss. length (xss ! k) = min B (n - k * B)"
    and "n \<le> length xss * B"
  shows "length (concat xss) = n"
  using assms
proof (induction xss arbitrary: n)
  case Nil
  then show ?case by simp
next
  case (Cons xs rest)
  from Cons.prems(2) have lx: "length xs = min B n" by fastforce
  have h2: "\<forall>k < length rest. length (rest ! k) = min B ((n - B) - k * B)"
  proof (intro allI impI)
    fix k assume "k < length rest"
    then have "Suc k < length (xs # rest)" by simp
    with Cons.prems(2) have "length ((xs # rest) ! Suc k) = min B (n - Suc k * B)" by blast
    then show "length (rest ! k) = min B ((n - B) - k * B)" by (simp add: diff_diff_left)
  qed
  have h3: "n - B \<le> length rest * B" using Cons.prems(3) by simp
  from Cons.IH[OF Cons.prems(1) h2 h3] have "length (concat rest) = n - B" .
  with lx show ?case by (simp add: min_def)
qed

lemma concat_take_chunks:
  "concat (map (\<lambda>k. take B (drop (k * B) ys)) [0 ..< c]) = take (c * B) ys"
proof (induction c)
  case 0
  show ?case by simp
next
  case (Suc c)
  have "take (Suc c * B) ys = take (c * B + B) ys" by (simp add: add.commute)
  also have "\<dots> = take (c * B) ys @ take B (drop (c * B) ys)" by (rule take_add)
  finally show ?case using Suc by simp
qed

lemma chunk_call_ok:
  assumes pos: "0 < b" and k: "k * nat b < length cases"
  shows "chunk_call cases cs ctx b (int k * b) = Inr (chunk_of cases cs ctx (nat b) k)"
proof -
  have "take (nat b) (drop (k * nat b) cases) \<noteq> []" using pos k by simp
  then show ?thesis
    unfolding chunk_call_def py_slice_chunk[OF pos] chunk_of_def unzip_pairs_def
    by (cases ctx) (simp_all add: comp_def)
qed

lemma per_index_chunk_of:
  "per_index f g (chunk_of cases cs ctx B k) =
     take B (drop (k * B) (per_index f g (whole_call cases cs ctx)))"
  by (cases ctx) (simp_all add: chunk_of_def whole_call_def take_map drop_map take_zip drop_zip)

lemma length_per_index_whole:
  "length (per_index f g (whole_call cases cs ctx)) \<le> length cases"
  "length (per_index f g (whole_call cases cs ctx)) \<le> length cs"
  by (cases ctx; simp add: whole_call_def)+

lemma score_batches_per_index:
  assumes pw: "\<forall>made call. sm made call = Inr (per_index f g call)"
    and pos: "0 < b"
    and ks: "\<forall>k \<in> set ks. k * nat b < length cases"
  shows "fst (score_batches sm cases cs ctx b (map (\<lambda>k. int k * b) ks) acc made) =
           Inr (acc @ concat (map (\<lambda>k. per_index f g (chunk_of cases cs ctx (nat b) k)) ks))"
  using ks
proof (induction ks arbitrary: acc made)
  case Nil
  show ?case by simp
next
  case (Cons k ks)
  then have c: "chunk_call cases cs ctx b (int k * b) = Inr (chunk_of cases cs ctx (nat b) k)"
    using chunk_call_ok[OF pos] by simp
  have s: "sm (map fst made) (chunk_of cases cs ctx (nat b) k)
             = Inr (per_index f g (chunk_of cases cs ctx (nat b) k))"
    using pw by simp
  have "score_batches sm cases cs ctx b (map (\<lambda>k. int k * b) (k # ks)) acc made =
        score_batches sm cases cs ctx b (map (\<lambda>k. int k * b) ks)
          (acc @ per_index f g (chunk_of cases cs ctx (nat b) k))
          (made @ [(chunk_of cases cs ctx (nat b) k,
                    Inr (per_index f g (chunk_of cases cs ctx (nat b) k)))])"
    using score_batches_step[where sm=sm and made=made, OF c s] by simp
  then show ?case using Cons.IH Cons.prems by simp
qed

lemma try_scoring_per_index:
  assumes pw: "\<forall>made call. sm made call = Inr (per_index f g call)"
    and pos: "0 < b"
  shows "fst (try_scoring sm cases cs ctx b) = Inr (per_index f g (whole_call cases cs ctx))"
proof -
  let ?B = "nat b"
  let ?c = "chunk_count (length cases) ?B"
  let ?Y = "per_index f g (whole_call cases cs ctx)"
  have B: "0 < ?B" using pos by simp
  have ks: "\<forall>k \<in> set [0 ..< ?c]. k * ?B < length cases"
    using chunk_count_start[OF B] by simp
  have "fst (try_scoring sm cases cs ctx b) =
          fst (score_batches sm cases cs ctx b (map (\<lambda>k. int k * b) [0 ..< ?c]) [] [])"
    by (simp add: try_scoring_def py_range_pos[OF pos])
  also have "\<dots> = Inr ([] @ concat (map (\<lambda>k. per_index f g (chunk_of cases cs ctx ?B k)) [0 ..< ?c]))"
    by (rule score_batches_per_index[OF pw pos ks])
  also have "concat (map (\<lambda>k. per_index f g (chunk_of cases cs ctx ?B k)) [0 ..< ?c]) =
             take (?c * ?B) ?Y"
    unfolding per_index_chunk_of by (rule concat_take_chunks)
  also have "take (?c * ?B) ?Y = ?Y"
    using chunk_count_covers[OF B, of "length cases"] length_per_index_whole(1)[of f g cases cs ctx]
    by simp
  finally show ?thesis by simp
qed

lemma chunk_call_fields:
  assumes c: "chunk_call cases cs ctx b (int k * b) = Inr call" and pos: "0 < b"
  shows "cands call = take (nat b) (drop (k * nat b) cs)"
    and "inps call = map input (take (nat b) (drop (k * nat b) cases))"
    and "refs call = map reference_output (take (nat b) (drop (k * nat b) cases))"
proof -
  note form = chunk_call_form[OF c, unfolded py_slice_chunk[OF pos]]
  show "cands call = take (nat b) (drop (k * nat b) cs)"
    by (cases ctx) (simp_all add: form)
  show "inps call = map input (take (nat b) (drop (k * nat b) cases))"
    by (cases ctx) (simp_all add: form)
  show "refs call = map reference_output (take (nat b) (drop (k * nat b) cases))"
    by (cases ctx) (simp_all add: form)
qed

lemma chunk_nth:
  assumes "j < length (take B (drop (k * B) xs))"
  shows "take B (drop (k * B) xs) ! j = xs ! (k * B + j)"
proof -
  from assms have "j < B" and "k * B + j < length xs" by auto
  then show ?thesis by simp
qed

lemma three_entries:
  assumes "length xs = 3"
  shows "xs = [xs ! 0, xs ! 1, xs ! 2]"
proof -
  from assms obtain x y z where "xs = [x, y, z]"
    by (cases xs; simp; rename_tac ys; case_tac ys; simp; rename_tac zs; case_tac zs; simp)
  then show ?thesis by simp
qed

section \<open>Results of a run\<close>

lemma pair_outputs_nth:
  assumes "i < length cs" and "i < length all_scores"
  shows "pair_outputs cs all_scores ! i = \<lparr>output_text = cs ! i, score = all_scores ! i\<rparr>"
  using assms by (simp add: pair_outputs_def)

lemma run_result_without_save:
  "map_sum id (\<lambda>run. run\<lparr>tr_run_dir := None\<rparr>) (fst (TestSuite_run env self (a\<lparr>save := sv\<rparr>))) =
   map_sum id (\<lambda>run. run\<lparr>tr_run_dir := None\<rparr>) (fst (TestSuite_run env self a))"
proof (cases "load_run_data_from_args env (candidate_data a) (candidate_data_path a)
             (candidate_column a) (candidate_output_list a) (context_column a) (context_list a)")
  case (Inl e)
  then show ?thesis by (simp add: TestSuite_run_def)
next
  case (Inr p)
  obtain cs ctx where p: "p = (cs, ctx)" by (cases p)
  show ?thesis
  proof (cases "length cs = length (test_cases (suite self))")
    case False
    with Inr p show ?thesis by (simp add: TestSuite_run_def)
  next
    case n: True
    show ?thesis
    proof (cases "load_scoring_method env (suite_scoring_method (suite self))")
      case (Inl e)
      with Inr p n show ?thesis by (simp add: TestSuite_run_def)
    next
      case s: (Inr sm)
      obtain tres made where
        t: "try_scoring sm (test_cases (suite self)) cs ctx (batch_size a) = (tres, made)"
        by (cases "try_scoring sm (test_cases (suite self)) cs ctx (batch_size a)")
      have l: "load_run_data_from_args env (candidate_data a) (candidate_data_path a)
             (candidate_column a) (candidate_output_list a) (context_column a) (context_list a)
            = Inr (cs, ctx)"
        using Inr p by simp
      have l': "load_run_data_from_args env (candidate_data (a\<lparr>save := sv\<rparr>))
             (candidate_data_path (a\<lparr>save := sv\<rparr>))
             (candidate_column (a\<lparr>save := sv\<rparr>)) (candidate_output_list (a\<lparr>save := sv\<rparr>))
             (context_column (a\<lparr>save := sv\<rparr>)) (context_list (a\<lparr>save := sv\<rparr>))
            = Inr (cs, ctx)"
        using l by simp
      have t': "try_scoring sm (test_cases (suite self)) cs ctx (batch_size (a\<lparr>save := sv\<rparr>))
            = (tres, made)"
        using t by simp
      show ?thesis
      proof (cases tres)
        case (Inl e)
        show ?thesis
          unfolding run_reaches_scoring[OF l n s t] run_reaches_scoring[OF l' n s t'] Inl
          by simp
      next
        case (Inr all_scores)
        show ?thesis
          unfolding run_reaches_scoring[OF l n s t] run_reaches_scoring[OF l' n s t'] Inr
          by simp
      qed
    qed
  qed
qed

lemma run_success:
  assumes r: "TestSuite_run env self a = (Inr run, evs)"
  shows "\<exists>cs ctx sm all_scores.
           load_run_data_from_args env (candidate_data a) (candidate_data_path a)
             (candidate_column a) (candidate_output_list a) (context_column a) (context_list a)
            = Inr (cs, ctx) \<and>
           length cs = length (test_cases (suite self)) \<and>
           load_scoring_method env (suite_scoring_method (suite self)) = Inr sm \<and>
           try_scoring sm (test_cases (suite self)) cs ctx (batch_size a)
             = (Inr all_scores, scoring_calls evs) \<and>
           run = \<lparr>tr_name = run_name a,
                test_case_outputs = pair_outputs cs all_scores,
                tr_model_name = model_name a,
                tr_model_version = model_version a,
                tr_foundation_model = foundation_model a,
                tr_prompt_template = prompt_template a,
                tr_run_dir = (if save a
                              then Some (create_run_dir env (suite_name (suite self)) (run_name a))
                              else None),
                tr_metadata = initialize_metadata env\<rparr> \<and>
           evs = (if save a then [CreateRunDir (suite_name (suite self)) (run_name a)] else [])
                 @ batch_events (scoring_calls evs)
                 @ (if save a
                    then [WriteText (path_join (self_test_suite_dir self) ''suite.json'')
                            (suite_json env (suite self)),
                          RunSave run]
                    else [])"
proof (cases "load_run_data_from_args env (candidate_data a) (candidate_data_path a)
             (candidate_column a) (candidate_output_list a) (context_column a) (context_list a)")
  case (Inl e)
  with r show ?thesis by (simp add: TestSuite_run_def)
next
  case (Inr p)
  obtain cs ctx where p: "p = (cs, ctx)" by (cases p)
  have l: "load_run_data_from_args env (candidate_data a) (candidate_data_path a)
             (candidate_column a) (candidate_output_list a) (context_column a) (context_list a)
            = Inr (cs, ctx)"
    using Inr p by simp
  show ?thesis
  proof (cases "length cs = length (test_cases (suite self))")
    case False
    with l r show ?thesis by (simp add: TestSuite_run_def)
  next
    case n: True
    show ?thesis
    proof (cases "load_scoring_method env (suite_scoring_method (suite self))")
      case (Inl e)
      with l n r show ?thesis by (simp add: TestSuite_run_def)
    next
      case s: (Inr sm)
      obtain tres made where
        t: "try_scoring sm (test_cases (suite self)) cs ctx (batch_size a) = (tres, made)"
        by (cases "try_scoring sm (test_cases (suite self)) cs ctx (batch_size a)")
      have made: "scoring_calls evs = made"
        using run_scoring_calls[OF l n s t] r by simp
      show ?thesis
      proof (cases tres)
        case (Inl e)
        with run_reaches_scoring[OF l n s t] r show ?thesis
          by (cases "is_Exception (exn_class e)") simp_all
      next
        case (Inr all_scores)
        have t2: "try_scoring sm (test_cases (suite self)) cs ctx (batch_size a)
             = (Inr all_scores, scoring_calls evs)"
          using t Inr made by simp
        from run_reaches_scoring[OF l n s t2] r
        have run: "run = \<lparr>tr_name = run_name a,
                test_case_outputs = pair_outputs cs all_scores,
                tr_model_name = model_name a,
                tr_model_version = model_version a,
                tr_foundation_model = foundation_model a,
                tr_prompt_template = prompt_template a,
                tr_run_dir = (if save a
                              then Some (create_run_dir env (suite_name (suite self)) (run_name a))
                              else None),
                tr_metadata = initialize_metadata env\<rparr>"
          by simp
        from run_reaches_scoring[OF l n s t2] r
        have evs: "evs = (if save a then [CreateRunDir (suite_name (suite self)) (run_name a)] else [])
                 @ batch_events (scoring_calls evs)
                 @ (if save a
                    then [WriteText (path_join (self_test_suite_dir self) ''suite.json'')
                            (suite_json env (suite self)),
                          RunSave run]
                    else [])"
          unfolding run by (cases "save a") simp_all
        show ?thesis
          by (intro exI[of _ cs] exI[of _ ctx] exI[of _ sm] exI[of _ all_scores] conjI)
             (rule l n s t2 run evs)+
      qed
    qed
  qed
qed

lemma run_events_head:
  assumes r: "TestSuite_run env self a = (res, evs)" and sv: "save a" and ne: "evs \<noteq> []"
  shows "\<exists>rest. evs = CreateRunDir (suite_name (suite self)) (run_name a) # rest"
proof -
  from run_without_scoring[OF r] ne obtain cs ctx sm tres made where
    l: "load_run_data_from_args env (candidate_data a) (candidate_data_path a)
             (candidate_column a) (candidate_output_list a) (context_column a) (context_list a)
           = Inr (cs, ctx)" and
    n: "length cs = length (test_cases (suite self))" and
    s: "load_scoring_method env (suite_scoring_method (suite self)) = Inr sm" and
    t: "try_scoring sm (test_cases (suite self)) cs ctx (batch_size a) = (tres, made)"
    by blast
  show ?thesis
  proof (cases tres)
    case (Inl e)
    with run_reaches_scoring[OF l n s t] r sv show ?thesis
      by (cases "is_Exception (exn_class e)") simp_all
  next
    case (Inr all_scores)
    with run_reaches_scoring[OF l n s t] r sv show ?thesis by simp
  qed
qed


lemma run_events_nonempty:
  assumes r: "TestSuite_run env self a = (res, evs)" and sv: "save a"
    and l: "load_run_data_from_args env (candidate_data a) (candidate_data_path a)
             (candidate_column a) (candidate_output_list a) (context_column a) (context_list a)
           = Inr (cs, ctx)"
    and n: "length cs = length (test_cases (suite self))"
    and s: "load_scoring_method env (suite_scoring_method (suite self)) = Inr sm"
  shows "evs \<noteq> []"
proof -
  obtain tres made where
    t: "try_scoring sm (test_cases (suite self)) cs ctx (batch_size a) = (tres, made)"
    by (cases "try_scoring sm (test_cases (suite self)) cs ctx (batch_size a)")
  show ?thesis
  proof (cases tres)
    case (Inl e)
    with run_reaches_scoring[OF l n s t] r sv show ?thesis
      by (cases "is_Exception (exn_class e)") auto
  next
    case (Inr all_scores)
    with run_reaches_scoring[OF l n s t] r sv show ?thesis by auto
  qed
qed


section \<open>Validation of the candidate count\<close>

text \<open>
  C2. When the resolved candidate list and the suite's test cases differ in length,
  \<open>run\<close> raises a \<open>UserValueError\<close> whose message holds both counts, and the
  invocation causes no event at all: no run directory is made and the scoring method
  is not called.
\<close>

theorem run_count_mismatch:
  assumes "load_run_data_from_args env (candidate_data a) (candidate_data_path a)
             (candidate_column a) (candidate_output_list a) (context_column a) (context_list a)
           = Inr (cs, ctx)"
    and "length cs \<noteq> length (test_cases (suite self))"
  shows "TestSuite_run env self a =
           (Inl (Exn UserValueError
                  (''candidate data has '' @ str_nat (length cs) @ '' tests but expected ''
                     @ str_nat (length (test_cases (suite self))) @ '' tests'') None),
            [])"
  using assms by (simp add: TestSuite_run_def mismatch_error_def)

theorem run_count_mismatch_witness:
  "TestSuite_run mem_env (suite_with ''exact_match'' sums_cases) (args_with [''4''] None True 32) =
     (Inl (Exn UserValueError ''candidate data has 1 tests but expected 2 tests'' None), [])"
proof -
  have d: "str_nat (Suc 0) = ''1''" "str_nat (Suc (Suc 0)) = ''2''"
    by (simp_all add: str_nat.simps digit_char_def)
  show ?thesis
    using run_count_mismatch [of mem_env "args_with [''4''] None True 32" "[''4'']" None
        "suite_with ''exact_match'' sums_cases"]
    by (simp add: mem_env_def suite_with_def sums_cases_def args_with_def d)
qed


section \<open>Outputs paired with scores\<close>

text \<open>
  C1. For a run that succeeds with a positive batch size, where every call of
  \<open>run_batch\<close> made in it returned one score per candidate of its slice: the run has
  as many test case outputs as the suite has test cases, and for every index \<open>i\<close> the
  output is the \<open>i\<close>-th resolved candidate and the score is the one returned for it,
  that is, the score at position \<open>i mod batch_size\<close> of call number
  \<open>i div batch_size\<close>, whose slices hold at that position the candidate, the input and
  the reference of case \<open>i\<close>.
\<close>

theorem run_outputs_scores_by_index:
  assumes l: "load_run_data_from_args env (candidate_data a) (candidate_data_path a)
             (candidate_column a) (candidate_output_list a) (context_column a) (context_list a)
           = Inr (cs, ctx)"
    and r: "TestSuite_run env self a = (Inr run, evs)"
    and pos: "0 < batch_size a"
    and one: "\<forall>(call, res) \<in> set (scoring_calls evs).
                \<forall>scores. res = Inr scores \<longrightarrow> length scores = length (cands call)"
  shows "length (test_case_outputs run) = length (test_cases (suite self)) \<and>
         (\<forall>i < length (test_cases (suite self)).
            output_text (test_case_outputs run ! i) = cs ! i \<and>
            (\<exists>call scores.
               i div nat (batch_size a) < length (scoring_calls evs) \<and>
               scoring_calls evs ! (i div nat (batch_size a)) = (call, Inr scores) \<and>
               i mod nat (batch_size a) < length scores \<and>
               score (test_case_outputs run ! i) = scores ! (i mod nat (batch_size a)) \<and>
               cands call ! (i mod nat (batch_size a)) = cs ! i \<and>
               inps call ! (i mod nat (batch_size a)) = input (test_cases (suite self) ! i) \<and>
               refs call ! (i mod nat (batch_size a)) =
                 reference_output (test_cases (suite self) ! i)))"
proof -
  define B where "B = nat (batch_size a)"
  define cases where "cases = test_cases (suite self)"
  define made where "made = scoring_calls evs"
  define xss where "xss = map (scores_of \<circ> snd) made"
  have B: "0 < B" using pos by (simp add: B_def)
  from run_success[OF r] obtain cs' ctx' sm all_scores where
    l': "load_run_data_from_args env (candidate_data a) (candidate_data_path a)
             (candidate_column a) (candidate_output_list a) (context_column a) (context_list a)
            = Inr (cs', ctx')" and
    n': "length cs' = length (test_cases (suite self))" and
    s: "load_scoring_method env (suite_scoring_method (suite self)) = Inr sm" and
    t': "try_scoring sm (test_cases (suite self)) cs' ctx' (batch_size a)
             = (Inr all_scores, scoring_calls evs)" and
    tco': "test_case_outputs run = pair_outputs cs' all_scores"
    by auto
  from l l' have same: "cs' = cs" "ctx' = ctx" by simp_all
  have n: "length cs = length cases" using n' unfolding same cases_def .
  have t: "try_scoring sm cases cs ctx (batch_size a) = (Inr all_scores, made)"
    using t' unfolding same cases_def made_def .
  have tco: "test_case_outputs run = pair_outputs cs all_scores"
    using tco' unfolding same .
  from try_scoring_ok[OF t] have
    ok: "\<forall>cr \<in> set made. \<exists>sc. snd cr = Inr sc" and
    all: "all_scores = concat xss"
    by (simp_all add: xss_def)
  have count: "length made = chunk_count (length cases) B"
    using try_scoring_ok_count[OF t pos] by (simp add: B_def)
  have entry: "\<exists>call scores. made ! k = (call, Inr scores) \<and>
                 cands call = take B (drop (k * B) cs) \<and>
                 inps call = map input (take B (drop (k * B) cases)) \<and>
                 refs call = map reference_output (take B (drop (k * B) cases)) \<and>
                 length scores = min B (length cases - k * B)"
    if k: "k < length made" for k
  proof -
    from try_scoring_calls[OF t k] have
      c: "chunk_call cases cs ctx (batch_size a) (int k * batch_size a) = Inr (fst (made ! k))" and
      o: "snd (made ! k) = sm (map fst (take k made)) (fst (made ! k))"
      by simp_all
    from k ok obtain scores where sc: "snd (made ! k) = Inr scores"
      using nth_mem[OF k] by blast
    note f = chunk_call_fields[OF c pos, folded B_def]
    have "made ! k = (fst (made ! k), Inr scores)" using sc by (simp add: prod_eq_iff)
    with nth_mem[OF k] have "(fst (made ! k), Inr scores) \<in> set (scoring_calls evs)"
      unfolding made_def by simp
    with one have "length scores = length (cands (fst (made ! k)))" by blast
    then have "length scores = min B (length cases - k * B)"
      unfolding f by (simp add: n min.commute)
    moreover have "made ! k = (fst (made ! k), Inr scores)" using sc by (simp add: prod_eq_iff)
    ultimately show ?thesis using f by blast
  qed
  have lens: "\<forall>k < length xss. length (xss ! k) = min B (length cases - k * B)"
  proof (intro allI impI)
    fix k assume "k < length xss"
    then have k: "k < length made" by (simp add: xss_def)
    from entry[OF k] obtain call scores where "made ! k = (call, Inr scores)"
      and "length scores = min B (length cases - k * B)" by blast
    with k show "length (xss ! k) = min B (length cases - k * B)" by (simp add: xss_def)
  qed
  have cover: "length cases \<le> length xss * B"
    using chunk_count_covers[OF B, of "length cases"] count by (simp add: xss_def)
  have len_all: "length all_scores = length cases"
    unfolding all by (rule length_concat_chunks[OF B lens cover])
  have len_out: "length (test_case_outputs run) = length cases"
    unfolding tco by (simp add: length_pair_outputs n len_all)
  have each: "output_text (test_case_outputs run ! i) = cs ! i \<and>
            (\<exists>call scores.
               i div B < length made \<and>
               made ! (i div B) = (call, Inr scores) \<and>
               i mod B < length scores \<and>
               score (test_case_outputs run ! i) = scores ! (i mod B) \<and>
               cands call ! (i mod B) = cs ! i \<and>
               inps call ! (i mod B) = input (cases ! i) \<and>
               refs call ! (i mod B) = reference_output (cases ! i))"
    if i: "i < length cases" for i
  proof -
    from concat_chunks_nth[OF B lens cover i] have
      kx: "i div B < length xss" and j: "i mod B < length (xss ! (i div B))" and
      v: "concat xss ! i = xss ! (i div B) ! (i mod B)"
      by simp_all
    have k: "i div B < length made" using kx by (simp add: xss_def)
    from entry[OF k] obtain call scores where
      e: "made ! (i div B) = (call, Inr scores)" and
      fc: "cands call = take B (drop (i div B * B) cs)" and
      fi: "inps call = map input (take B (drop (i div B * B) cases))" and
      fr: "refs call = map reference_output (take B (drop (i div B * B) cases))" and
      ls: "length scores = min B (length cases - i div B * B)"
      by blast
    have xk: "xss ! (i div B) = scores" using k e by (simp add: xss_def)
    have j': "i mod B < length scores" using j xk by simp
    have idx: "i div B * B + i mod B = i" by simp
    have jc: "i mod B < length (take B (drop (i div B * B) cs))"
      using j' ls n by (simp add: min.commute)
    have jx: "i mod B < length (take B (drop (i div B * B) cases))"
      using j' ls by (simp add: min.commute)
    have out: "test_case_outputs run ! i = \<lparr>output_text = cs ! i, score = all_scores ! i\<rparr>"
      unfolding tco using i n len_all by (simp add: pair_outputs_nth)
    have sc: "score (test_case_outputs run ! i) = scores ! (i mod B)"
      unfolding out using v xk all by simp
    have c1: "cands call ! (i mod B) = cs ! i"
      unfolding fc chunk_nth[OF jc] idx ..
    have c2: "inps call ! (i mod B) = input (cases ! i)"
      unfolding fi using jx chunk_nth[OF jx] idx by simp
    have c3: "refs call ! (i mod B) = reference_output (cases ! i)"
      unfolding fr using jx chunk_nth[OF jx] idx by simp
    have o: "output_text (test_case_outputs run ! i) = cs ! i" unfolding out by simp
    show ?thesis
      by (intro conjI exI[of _ call] exI[of _ scores]) (rule o k e j' sc c1 c2 c3)+
  qed
  show ?thesis
    using len_out each unfolding cases_def made_def B_def by blast
qed

theorem run_outputs_scores_by_index_witness:
  "\<exists>run evs.
     TestSuite_run mem_env (suite_with ''exact_match'' sums_cases)
       (args_with [''4'', ''six''] None False 1) = (Inr run, evs) \<and>
     length (test_case_outputs run) = 2 \<and>
     output_text (test_case_outputs run ! 1) = ''six'' \<and>
     (\<exists>call scores. scoring_calls evs ! 1 = (call, Inr scores) \<and>
        score (test_case_outputs run ! 1) = scores ! 0 \<and> cands call ! 0 = ''six'')"
proof -
  let ?a = "args_with [''4'', ''six''] None False 1"
  let ?self = "suite_with ''exact_match'' sums_cases"
  let ?run = "\<lparr>tr_name = ''r1'',
               test_case_outputs = [\<lparr>output_text = ''4'', score = 1\<rparr>,
                                    \<lparr>output_text = ''six'', score = 0\<rparr>],
               tr_model_name = None, tr_model_version = None, tr_foundation_model = None,
               tr_prompt_template = None, tr_run_dir = None,
               tr_metadata = [(''bench_version'', ''0'')]\<rparr>"
  let ?evs = "[RunBatch (RunBatch3 [Some ''4''] [''4''] [''2+2?'']) (Inr [1]),
               RunBatch (RunBatch3 [Some ''6''] [''six''] [''3+3?'']) (Inr [0])]"
  have l: "load_run_data_from_args mem_env (candidate_data ?a) (candidate_data_path ?a)
             (candidate_column ?a) (candidate_output_list ?a) (context_column ?a) (context_list ?a)
           = Inr ([''4'', ''six''], None)"
    by (simp add: mem_env_def args_with_def)
  have r: "TestSuite_run mem_env ?self ?a = (Inr ?run, ?evs)"
    by code_simp
  have pos: "0 < batch_size ?a" by (simp add: args_with_def)
  have one: "\<forall>(call, res) \<in> set (scoring_calls ?evs).
                \<forall>scores. res = Inr scores \<longrightarrow> length scores = length (cands call)"
    by simp
  have i: "(1::nat) < length (test_cases (suite ?self))"
    by (simp add: suite_with_def sums_cases_def)
  from run_outputs_scores_by_index[OF l r pos one] i
  have "length (test_case_outputs ?run) = length (test_cases (suite ?self))"
    and "output_text (test_case_outputs ?run ! 1) = [''4'', ''six''] ! 1 \<and>
            (\<exists>call scores.
               1 div nat (batch_size ?a) < length (scoring_calls ?evs) \<and>
               scoring_calls ?evs ! (1 div nat (batch_size ?a)) = (call, Inr scores) \<and>
               1 mod nat (batch_size ?a) < length scores \<and>
               score (test_case_outputs ?run ! 1) = scores ! (1 mod nat (batch_size ?a)) \<and>
               cands call ! (1 mod nat (batch_size ?a)) = [''4'', ''six''] ! 1 \<and>
               inps call ! (1 mod nat (batch_size ?a)) = input (test_cases (suite ?self) ! 1) \<and>
               refs call ! (1 mod nat (batch_size ?a)) =
                 reference_output (test_cases (suite ?self) ! 1))"
    by blast+
  then have "length (test_case_outputs ?run) = 2 \<and>
     output_text (test_case_outputs ?run ! 1) = ''six'' \<and>
     (\<exists>call scores. scoring_calls ?evs ! 1 = (call, Inr scores) \<and>
        score (test_case_outputs ?run ! 1) = scores ! 0 \<and> cands call ! 0 = ''six'')"
    by (simp add: args_with_def suite_with_def sums_cases_def)
  with r show ?thesis by blast
qed


section \<open>Batching\<close>

text \<open>
  C4. Batching is transparent. For a scoring method that applies a fixed function to
  each index of its aligned slices, every positive batch size gives the same result:
  the run returned for \<open>batch_size\<close> is the run returned for any other positive
  \<open>b'\<close>, and its scores are the function applied along the whole suite, in suite
  order. With 65 cases and a batch size of 32 there are exactly three calls, with
  slices of 32, 32 and 1 elements, and the scores of the run are the scores of the
  three calls one after the other.
\<close>

theorem batching_transparent:
  assumes l: "load_run_data_from_args env (candidate_data a) (candidate_data_path a)
             (candidate_column a) (candidate_output_list a) (context_column a) (context_list a)
           = Inr (cs, ctx)"
    and n: "length cs = length (test_cases (suite self))"
    and s: "load_scoring_method env (suite_scoring_method (suite self)) = Inr sm"
    and pw: "\<forall>made call. sm made call = Inr (per_index f g call)"
    and pos: "0 < batch_size a"
    and pos': "0 < b'"
  shows "\<exists>run. fst (TestSuite_run env self a) = Inr run \<and>
           fst (TestSuite_run env self (a\<lparr>batch_size := b'\<rparr>)) = Inr run \<and>
           map score (test_case_outputs run) =
             per_index f g (whole_call (test_cases (suite self)) cs ctx) \<and>
           (length (test_cases (suite self)) = 65 \<and> batch_size a = 32 \<longrightarrow>
              map (\<lambda>(call, res). (length (refs call), length (cands call), length (inps call)))
                (scoring_calls (snd (TestSuite_run env self a))) =
                [(32, 32, 32), (32, 32, 32), (1, 1, 1)] \<and>
              map score (test_case_outputs run) =
                concat (map (scores_of \<circ> snd) (scoring_calls (snd (TestSuite_run env self a)))))"
proof -
  let ?cases = "test_cases (suite self)"
  let ?Y = "per_index f g (whole_call ?cases cs ctx)"
  let ?a' = "a\<lparr>batch_size := b'\<rparr>"
  let ?run = "\<lparr>tr_name = run_name a,
                test_case_outputs = pair_outputs cs ?Y,
                tr_model_name = model_name a,
                tr_model_version = model_version a,
                tr_foundation_model = foundation_model a,
                tr_prompt_template = prompt_template a,
                tr_run_dir = (if save a
                              then Some (create_run_dir env (suite_name (suite self)) (run_name a))
                              else None),
                tr_metadata = initialize_metadata env\<rparr>"
  obtain made where t: "try_scoring sm ?cases cs ctx (batch_size a) = (Inr ?Y, made)"
    using try_scoring_per_index[OF pw pos, of ?cases cs ctx]
    by (cases "try_scoring sm ?cases cs ctx (batch_size a)") simp
  obtain made' where t': "try_scoring sm ?cases cs ctx (batch_size ?a') = (Inr ?Y, made')"
    using try_scoring_per_index[OF pw pos', of ?cases cs ctx]
    by (cases "try_scoring sm ?cases cs ctx b'") simp
  have l': "load_run_data_from_args env (candidate_data ?a') (candidate_data_path ?a')
             (candidate_column ?a') (candidate_output_list ?a') (context_column ?a') (context_list ?a')
           = Inr (cs, ctx)"
    using l by simp
  have r1: "fst (TestSuite_run env self a) = Inr ?run"
    unfolding run_reaches_scoring[OF l n s t] by simp
  have r2: "fst (TestSuite_run env self ?a') = Inr ?run"
    unfolding run_reaches_scoring[OF l' n s t'] by simp
  have sc: "map score (test_case_outputs ?run) = ?Y"
    using length_per_index_whole(2)[of f g ?cases cs ctx] by (simp add: pair_outputs_scores)
  have made: "scoring_calls (snd (TestSuite_run env self a)) = made"
    by (rule run_scoring_calls[OF l n s t])
  have ex: "length ?cases = 65 \<and> batch_size a = 32 \<longrightarrow>
              map (\<lambda>(call, res). (length (refs call), length (cands call), length (inps call)))
                (scoring_calls (snd (TestSuite_run env self a))) =
                [(32, 32, 32), (32, 32, 32), (1, 1, 1)] \<and>
              map score (test_case_outputs ?run) =
                concat (map (scores_of \<circ> snd) (scoring_calls (snd (TestSuite_run env self a))))"
  proof (intro impI)
    assume h: "length ?cases = 65 \<and> batch_size a = 32"
    then have n65: "length ?cases = 65" and b32: "batch_size a = 32" by simp_all
    have len: "length made = 3"
      using try_scoring_ok_count[OF t pos] by (simp add: n65 b32 chunk_count_def)
    have sizes: "length (refs (fst (made ! k))) = min 32 (65 - k * 32) \<and>
                 length (cands (fst (made ! k))) = min 32 (65 - k * 32) \<and>
                 length (inps (fst (made ! k))) = min 32 (65 - k * 32)" if k: "k < 3" for k
    proof -
      from k len have "k < length made" by simp
      from try_scoring_calls[OF t this]
      have c: "chunk_call ?cases cs ctx (batch_size a) (int k * batch_size a) = Inr (fst (made ! k))"
        by simp
      show ?thesis
        unfolding chunk_call_fields[OF c pos] by (simp add: n n65 b32 min.commute)
    qed
    have m: "made = [made ! 0, made ! 1, made ! 2]" using len by (rule three_entries)
    have "map (\<lambda>(call, res). (length (refs call), length (cands call), length (inps call))) made =
            [(32, 32, 32), (32, 32, 32), (1, 1, 1)]"
      using sizes[of 0] sizes[of 1] sizes[of 2]
      by (subst m) (simp add: case_prod_beta)
    moreover have "map score (test_case_outputs ?run) = concat (map (scores_of \<circ> snd) made)"
      using try_scoring_ok[OF t] sc by simp
    ultimately show "map (\<lambda>(call, res). (length (refs call), length (cands call), length (inps call)))
                (scoring_calls (snd (TestSuite_run env self a))) =
                [(32, 32, 32), (32, 32, 32), (1, 1, 1)] \<and>
              map score (test_case_outputs ?run) =
                concat (map (scores_of \<circ> snd) (scoring_calls (snd (TestSuite_run env self a))))"
      unfolding made by simp
  qed
  show ?thesis
    by (intro exI[of _ ?run] conjI) (rule r1 r2 sc ex)+
qed

theorem batching_transparent_witness:
  "fst (TestSuite_run mem_env (suite_with ''exact_match'' (many_cases 65))
          ((args_with (replicate 65 ''4'') None False 32)\<lparr>batch_size := 7\<rparr>)) =
   fst (TestSuite_run mem_env (suite_with ''exact_match'' (many_cases 65))
          (args_with (replicate 65 ''4'') None False 32)) \<and>
   map (\<lambda>(call, res). (length (refs call), length (cands call), length (inps call)))
     (scoring_calls (snd (TestSuite_run mem_env (suite_with ''exact_match'' (many_cases 65))
          (args_with (replicate 65 ''4'') None False 32)))) =
     [(32, 32, 32), (32, 32, 32), (1, 1, 1)]"
proof -
  let ?a = "args_with (replicate 65 ''4'') None False 32"
  let ?self = "suite_with ''exact_match'' (many_cases 65)"
  have l: "load_run_data_from_args mem_env (candidate_data ?a) (candidate_data_path ?a)
             (candidate_column ?a) (candidate_output_list ?a) (context_column ?a) (context_list ?a)
           = Inr (replicate 65 ''4'', None)"
    by (simp add: mem_env_def args_with_def)
  have n: "length (replicate 65 ''4'') = length (test_cases (suite ?self))"
    by (simp add: suite_with_def many_cases_def)
  have s: "load_scoring_method mem_env (suite_scoring_method (suite ?self)) = Inr exact_match"
    by (simp add: mem_env_def suite_with_def)
  have pw: "\<forall>made call. exact_match made call =
              Inr (per_index (\<lambda>r c i. if r = Some c then 1 else 0)
                     (\<lambda>r c i x. if r = Some c then 1 else 0) call)"
    by (simp add: exact_match_def)
  have pos: "0 < batch_size ?a" by (simp add: args_with_def)
  have pos': "0 < (7::int)" by simp
  have h: "length (test_cases (suite ?self)) = 65 \<and> batch_size ?a = 32"
    by (simp add: suite_with_def many_cases_def args_with_def)
  from batching_transparent[OF l n s pw pos pos'] h show ?thesis
    by auto
qed

text \<open>
  C7. Every call of the scoring method made by a run takes its slices at the same
  bounds: call number \<open>k\<close> starts at \<open>k * batch_size\<close> and ends \<open>batch_size\<close> later for
  the references, the candidates and the inputs alike. When a context list was
  resolved, every call has four arguments and the fourth is the slice of the context
  list at these bounds; when none was resolved, every call has three arguments.
\<close>

theorem run_context_alignment:
  assumes l: "load_run_data_from_args env (candidate_data a) (candidate_data_path a)
             (candidate_column a) (candidate_output_list a) (context_column a) (context_list a)
           = Inr (cs, ctx)"
    and r: "TestSuite_run env self a = (res, evs)"
  shows "\<forall>k < length (scoring_calls evs).
           fst (scoring_calls evs ! k) =
             (case ctx of
                Some cl \<Rightarrow>
                  RunBatch4
                    (map reference_output
                       (py_slice (test_cases (suite self)) (int k * batch_size a)
                          (int k * batch_size a + batch_size a)))
                    (py_slice cs (int k * batch_size a) (int k * batch_size a + batch_size a))
                    (map input
                       (py_slice (test_cases (suite self)) (int k * batch_size a)
                          (int k * batch_size a + batch_size a)))
                    (py_slice cl (int k * batch_size a) (int k * batch_size a + batch_size a))
              | None \<Rightarrow>
                  RunBatch3
                    (map reference_output
                       (py_slice (test_cases (suite self)) (int k * batch_size a)
                          (int k * batch_size a + batch_size a)))
                    (py_slice cs (int k * batch_size a) (int k * batch_size a + batch_size a))
                    (map input
                       (py_slice (test_cases (suite self)) (int k * batch_size a)
                          (int k * batch_size a + batch_size a))))"
proof (intro allI impI)
  fix k assume k: "k < length (scoring_calls evs)"
  then have "evs \<noteq> []" by auto
  with run_without_scoring[OF r] obtain cs' ctx' sm tres made where
    l': "load_run_data_from_args env (candidate_data a) (candidate_data_path a)
             (candidate_column a) (candidate_output_list a) (context_column a) (context_list a)
           = Inr (cs', ctx')" and
    n': "length cs' = length (test_cases (suite self))" and
    s: "load_scoring_method env (suite_scoring_method (suite self)) = Inr sm" and
    t': "try_scoring sm (test_cases (suite self)) cs' ctx' (batch_size a) = (tres, made)"
    by blast
  from l l' have same: "cs' = cs" "ctx' = ctx" by simp_all
  note n = n'[unfolded same] and t = t'[unfolded same]
  have made: "scoring_calls evs = made"
    using run_scoring_calls[OF l n s t] r by simp
  with k have "k < length made" by simp
  from try_scoring_calls[OF t this]
  have "chunk_call (test_cases (suite self)) cs ctx (batch_size a) (int k * batch_size a)
          = Inr (fst (made ! k))"
    by simp
  from chunk_call_form[OF this] show "fst (scoring_calls evs ! k) =
             (case ctx of
                Some cl \<Rightarrow>
                  RunBatch4
                    (map reference_output
                       (py_slice (test_cases (suite self)) (int k * batch_size a)
                          (int k * batch_size a + batch_size a)))
                    (py_slice cs (int k * batch_size a) (int k * batch_size a + batch_size a))
                    (map input
                       (py_slice (test_cases (suite self)) (int k * batch_size a)
                          (int k * batch_size a + batch_size a)))
                    (py_slice cl (int k * batch_size a) (int k * batch_size a + batch_size a))
              | None \<Rightarrow>
                  RunBatch3
                    (map reference_output
                       (py_slice (test_cases (suite self)) (int k * batch_size a)
                          (int k * batch_size a + batch_size a)))
                    (py_slice cs (int k * batch_size a) (int k * batch_size a + batch_size a))
                    (map input
                       (py_slice (test_cases (suite self)) (int k * batch_size a)
                          (int k * batch_size a + batch_size a))))"
    unfolding made by simp
qed

theorem run_context_alignment_witness:
  "fst (scoring_calls (snd (TestSuite_run mem_env (suite_with ''exact_match'' sums_cases)
          (args_with [''4'', ''six''] (Some [''sums to four'', ''sums to six'']) False 1))) ! 1) =
     RunBatch4 [Some ''6''] [''six''] [''3+3?''] [''sums to six'']"
proof -
  let ?a = "args_with [''4'', ''six''] (Some [''sums to four'', ''sums to six'']) False 1"
  let ?self = "suite_with ''exact_match'' sums_cases"
  let ?evs = "snd (TestSuite_run mem_env ?self ?a)"
  have l: "load_run_data_from_args mem_env (candidate_data ?a) (candidate_data_path ?a)
             (candidate_column ?a) (candidate_output_list ?a) (context_column ?a) (context_list ?a)
           = Inr ([''4'', ''six''], Some [''sums to four'', ''sums to six''])"
    by (simp add: mem_env_def args_with_def)
  have r: "TestSuite_run mem_env ?self ?a = (fst (TestSuite_run mem_env ?self ?a), ?evs)"
    by simp
  have k: "1 < length (scoring_calls ?evs)"
    by code_simp
  have sl: "py_slice sums_cases 1 2 = [\<lparr>input = ''3+3?'', reference_output = Some ''6''\<rparr>]"
    "py_slice [''4'', ''six''] 1 2 = [''six'']"
    "py_slice [''sums to four'', ''sums to six''] 1 2 = [''sums to six'']"
    by (simp_all add: py_slice_def slice_index_def sums_cases_def)
  from run_context_alignment[OF l r] k show ?thesis
    by (simp add: args_with_def suite_with_def sl)
qed


section \<open>Order of persistence\<close>

text \<open>
  C8. With \<open>save\<close>, a run that gets past the count check and the loading of the
  scoring method creates the run directory, and the creation is the first event of the
  run, before any call of the scoring method. On success the events are, in this order,
  the creation of the run directory (with \<open>save\<close>), the calls of the scoring method,
  and (with \<open>save\<close>) the writing of \<open>suite.json\<close> and the saving of the run; the
  returned run carries the given name and provenance fields and the run directory.
  Whether \<open>save\<close> is requested changes nothing in the result but the run directory.
\<close>

theorem run_save_order:
  assumes r: "TestSuite_run env self a = (res, evs)"
  shows "(\<forall>cs ctx sm.
            save a \<and>
            load_run_data_from_args env (candidate_data a) (candidate_data_path a)
              (candidate_column a) (candidate_output_list a) (context_column a) (context_list a)
              = Inr (cs, ctx) \<and>
            length cs = length (test_cases (suite self)) \<and>
            load_scoring_method env (suite_scoring_method (suite self)) = Inr sm \<longrightarrow>
            evs \<noteq> []) \<and>
         (save a \<and> evs \<noteq> [] \<longrightarrow>
            (\<exists>rest. evs = CreateRunDir (suite_name (suite self)) (run_name a) # rest)) \<and>
         (\<forall>run. res = Inr run \<longrightarrow>
            tr_name run = run_name a \<and> tr_model_name run = model_name a \<and>
            tr_model_version run = model_version a \<and>
            tr_foundation_model run = foundation_model a \<and>
            tr_prompt_template run = prompt_template a \<and>
            tr_run_dir run =
              (if save a then Some (create_run_dir env (suite_name (suite self)) (run_name a))
               else None) \<and>
            evs = (if save a then [CreateRunDir (suite_name (suite self)) (run_name a)] else [])
                  @ batch_events (scoring_calls evs)
                  @ (if save a
                     then [WriteText (path_join (self_test_suite_dir self) ''suite.json'')
                             (suite_json env (suite self)),
                           RunSave run]
                     else [])) \<and>
         (\<forall>sv. map_sum id (\<lambda>run. run\<lparr>tr_run_dir := None\<rparr>)
                 (fst (TestSuite_run env self (a\<lparr>save := sv\<rparr>))) =
               map_sum id (\<lambda>run. run\<lparr>tr_run_dir := None\<rparr>) res)"
proof (intro conjI allI impI)
  fix cs ctx sm
  assume "save a \<and>
            load_run_data_from_args env (candidate_data a) (candidate_data_path a)
              (candidate_column a) (candidate_output_list a) (context_column a) (context_list a)
              = Inr (cs, ctx) \<and>
            length cs = length (test_cases (suite self)) \<and>
            load_scoring_method env (suite_scoring_method (suite self)) = Inr sm"
  then show "evs \<noteq> []"
    using run_events_nonempty[OF r] by blast
next
  assume "save a \<and> evs \<noteq> []"
  then have "save a" and "evs \<noteq> []" by auto
  with r show "\<exists>rest. evs = CreateRunDir (suite_name (suite self)) (run_name a) # rest"
    by (rule run_events_head)
next
  fix sv
  show "map_sum id (\<lambda>run. run\<lparr>tr_run_dir := None\<rparr>)
                 (fst (TestSuite_run env self (a\<lparr>save := sv\<rparr>))) =
               map_sum id (\<lambda>run. run\<lparr>tr_run_dir := None\<rparr>) res"
    using run_result_without_save[where env=env and self=self and a=a and sv=sv] r by simp
next
  fix run assume "res = Inr run"
  with r have ok: "TestSuite_run env self a = (Inr run, evs)" by simp
  from run_success[OF ok] obtain cs all_scores where
    run: "run = \<lparr>tr_name = run_name a,
                test_case_outputs = pair_outputs cs all_scores,
                tr_model_name = model_name a,
                tr_model_version = model_version a,
                tr_foundation_model = foundation_model a,
                tr_prompt_template = prompt_template a,
                tr_run_dir = (if save a
                              then Some (create_run_dir env (suite_name (suite self)) (run_name a))
                              else None),
                tr_metadata = initialize_metadata env\<rparr>" and
    evs: "evs = (if save a then [CreateRunDir (suite_name (suite self)) (run_name a)] else [])
                 @ batch_events (scoring_calls evs)
                 @ (if save a
                    then [WriteText (path_join (self_test_suite_dir self) ''suite.json'')
                            (suite_json env (suite self)),
                          RunSave run]
                    else [])"
    by blast
  show "tr_name run = run_name a" "tr_model_name run = model_name a"
    "tr_model_version run = model_version a" "tr_foundation_model run = foundation_model a"
    "tr_prompt_template run = prompt_template a"
    "tr_run_dir run =
              (if save a then Some (create_run_dir env (suite_name (suite self)) (run_name a))
               else None)"
    unfolding run by simp_all
  show "evs = (if save a then [CreateRunDir (suite_name (suite self)) (run_name a)] else [])
                  @ batch_events (scoring_calls evs)
                  @ (if save a
                     then [WriteText (path_join (self_test_suite_dir self) ''suite.json'')
                             (suite_json env (suite self)),
                           RunSave run]
                     else [])"
    by (rule evs)
qed

theorem run_save_order_witness:
  "\<exists>run evs.
     TestSuite_run mem_env (suite_with ''exact_match'' sums_cases)
       (args_with [''4'', ''six''] None True 32) = (Inr run, evs) \<and>
     (\<exists>rest. evs = CreateRunDir ''sums'' ''r1'' # rest) \<and>
     evs = [CreateRunDir ''sums'' ''r1''] @ batch_events (scoring_calls evs) @
           [WriteText (Path [''bench'', ''sums'', ''suite.json'']) ''sums'', RunSave run] \<and>
     tr_run_dir run = Some (Path [''bench'', ''sums'', ''r1'']) \<and>
     map_sum id (\<lambda>run. run\<lparr>tr_run_dir := None\<rparr>)
       (fst (TestSuite_run mem_env (suite_with ''exact_match'' sums_cases)
               (args_with [''4'', ''six''] None False 32))) = Inr (run\<lparr>tr_run_dir := None\<rparr>)"
proof -
  let ?a = "args_with [''4'', ''six''] None True 32"
  let ?self = "suite_with ''exact_match'' sums_cases"
  let ?run = "\<lparr>tr_name = ''r1'',
               test_case_outputs = [\<lparr>output_text = ''4'', score = 1\<rparr>,
                                    \<lparr>output_text = ''six'', score = 0\<rparr>],
               tr_model_name = None, tr_model_version = None, tr_foundation_model = None,
               tr_prompt_template = None, tr_run_dir = Some (Path [''bench'', ''sums'', ''r1'']),
               tr_metadata = [(''bench_version'', ''0'')]\<rparr>"
  let ?evs = "[CreateRunDir ''sums'' ''r1'',
            RunBatch (RunBatch3 [Some ''4'', Some ''6''] [''4'', ''six''] [''2+2?'', ''3+3?''])
              (Inr [1, 0]),
            WriteText (Path [''bench'', ''sums'', ''suite.json'']) ''sums'',
            RunSave ?run]"
  have r: "TestSuite_run mem_env ?self ?a = (Inr ?run, ?evs)"
    by code_simp
  have reached: "save ?a \<and>
      load_run_data_from_args mem_env (candidate_data ?a) (candidate_data_path ?a)
        (candidate_column ?a) (candidate_output_list ?a) (context_column ?a) (context_list ?a)
        = Inr ([''4'', ''six''], None) \<and>
      length [''4'', ''six''] = length (test_cases (suite ?self)) \<and>
      load_scoring_method mem_env (suite_scoring_method (suite ?self)) = Inr exact_match"
    by (simp add: args_with_def mem_env_def suite_with_def sums_cases_def)
  have a': "?a\<lparr>save := False\<rparr> = args_with [''4'', ''six''] None False 32"
    by (simp add: args_with_def)
  note order = run_save_order[OF r]
  from order reached have ne: "?evs \<noteq> []"
    by blast
  from order reached ne
  have first: "\<exists>rest. ?evs = CreateRunDir (suite_name (suite ?self)) (run_name ?a) # rest"
    by blast
  from order have
    "tr_run_dir ?run =
       (if save ?a then Some (create_run_dir mem_env (suite_name (suite ?self)) (run_name ?a))
        else None) \<and>
     ?evs = (if save ?a then [CreateRunDir (suite_name (suite ?self)) (run_name ?a)] else [])
            @ batch_events (scoring_calls ?evs)
            @ (if save ?a
               then [WriteText (path_join (self_test_suite_dir ?self) ''suite.json'')
                       (suite_json mem_env (suite ?self)),
                     RunSave ?run]
               else [])"
    by blast
  then have saved: "tr_run_dir ?run = Some (Path [''bench'', ''sums'', ''r1'']) \<and>
     ?evs = [CreateRunDir ''sums'' ''r1''] @ batch_events (scoring_calls ?evs) @
           [WriteText (Path [''bench'', ''sums'', ''suite.json'']) ''sums'', RunSave ?run]"
    by (simp add: args_with_def suite_with_def mem_env_def)
  from order have
    "\<forall>sv. map_sum id (\<lambda>run. run\<lparr>tr_run_dir := None\<rparr>)
                 (fst (TestSuite_run mem_env ?self (?a\<lparr>save := sv\<rparr>))) =
               map_sum id (\<lambda>run. run\<lparr>tr_run_dir := None\<rparr>) (Inr ?run)"
    by blast
  then have unsaved: "map_sum id (\<lambda>run. run\<lparr>tr_run_dir := None\<rparr>)
                 (fst (TestSuite_run mem_env ?self (args_with [''4'', ''six''] None False 32))) =
               Inr (?run\<lparr>tr_run_dir := None\<rparr>)"
    using a' by (metis map_sum.simps(2))
  from first have first': "\<exists>rest. ?evs = CreateRunDir ''sums'' ''r1'' # rest"
    by (simp add: args_with_def suite_with_def)
  note saved1 = conjunct1[OF saved] and saved2 = conjunct2[OF saved]
  show ?thesis
    by (rule exI[of _ ?run], rule exI[of _ ?evs], intro conjI)
       (rule r first' saved1 saved2 unsaved)+
qed


section \<open>Failure of the scoring method\<close>

text \<open>
  C3, as amended. When a call of \<open>run_batch\<close> raises an exception \<open>e\<close> that derives
  from \<open>Exception\<close> on some chunk, \<open>run\<close> returns no run: it raises an
  \<open>ArthurInternalError\<close> that names the run and has \<open>e\<close> as its cause. The failing
  call is the last call made, every call before it returned, the error is logged with
  \<open>str(e)\<close>, and the run directory is removed exactly when \<open>save\<close> had it created. On
  the disk nothing else happens: the only disk events are the creation and the removal
  of that run directory.
\<close>

theorem run_scoring_failure:
  assumes r: "TestSuite_run env self a = (res, evs)"
    and raised: "RunBatch call (Inl e) \<in> set evs"
    and exc: "is_Exception (exn_class e)"
  shows "res = Inl (Exn ArthurInternalError (''failed to create run '' @ run_name a) (Some e)) \<and>
         (\<exists>before. (\<forall>cr \<in> set before. \<exists>s. snd cr = Inr s) \<and>
            evs = (if save a then [CreateRunDir (suite_name (suite self)) (run_name a)] else [])
                  @ batch_events (before @ [(call, Inl e)])
                  @ [LogError (''failed to create run: '' @ exn_str e)]
                  @ (if save a
                     then [CleanUpRun (create_run_dir env (suite_name (suite self)) (run_name a))]
                     else [])) \<and>
         disk_events evs =
           (if save a
            then [CreateRunDir (suite_name (suite self)) (run_name a),
                  CleanUpRun (create_run_dir env (suite_name (suite self)) (run_name a))]
            else [])"
proof -
  from raised have "evs \<noteq> []" by auto
  with run_without_scoring[OF r] obtain cs ctx sm tres made where
    l: "load_run_data_from_args env (candidate_data a) (candidate_data_path a)
             (candidate_column a) (candidate_output_list a) (context_column a) (context_list a)
           = Inr (cs, ctx)" and n: "length cs = length (test_cases (suite self))" and
    s: "load_scoring_method env (suite_scoring_method (suite self)) = Inr sm" and
    t: "try_scoring sm (test_cases (suite self)) cs ctx (batch_size a) = (tres, made)"
    by blast
  have "scoring_calls evs = made"
    using run_scoring_calls[OF l n s t] r by simp
  with RunBatch_in_scoring_calls[OF raised] have m: "(call, Inl e) \<in> set made" by simp
  from try_scoring_raised_call[OF t m] obtain before where
    tres: "tres = Inl e" and made: "made = before @ [(call, Inl e)]" and
    ok: "\<forall>cr \<in> set before. \<exists>s. snd cr = Inr s"
    by blast
  have stage: "(res, evs) =
      (Inl (Exn ArthurInternalError (''failed to create run '' @ run_name a) (Some e)),
       (if save a then [CreateRunDir (suite_name (suite self)) (run_name a)] else [])
                  @ batch_events (before @ [(call, Inl e)])
                  @ [LogError (''failed to create run: '' @ exn_str e)]
                  @ (if save a
                     then [CleanUpRun (create_run_dir env (suite_name (suite self)) (run_name a))]
                     else []))"
    using run_reaches_scoring[OF l n s t] r exc unfolding tres made by simp
  then have
    res: "res = Inl (Exn ArthurInternalError (''failed to create run '' @ run_name a) (Some e))" and
    evs: "evs = (if save a then [CreateRunDir (suite_name (suite self)) (run_name a)] else [])
                  @ batch_events (before @ [(call, Inl e)])
                  @ [LogError (''failed to create run: '' @ exn_str e)]
                  @ (if save a
                     then [CleanUpRun (create_run_dir env (suite_name (suite self)) (run_name a))]
                     else [])"
    by simp_all
  have disk: "disk_events evs =
           (if save a
            then [CreateRunDir (suite_name (suite self)) (run_name a),
                  CleanUpRun (create_run_dir env (suite_name (suite self)) (run_name a))]
            else [])"
    unfolding evs by (simp add: disk_events_append disk_events_batch_events)
  show ?thesis
  proof (intro conjI)
    show "res = Inl (Exn ArthurInternalError (''failed to create run '' @ run_name a) (Some e))"
      by (rule res)
    show "\<exists>before. (\<forall>cr \<in> set before. \<exists>s. snd cr = Inr s) \<and>
            evs = (if save a then [CreateRunDir (suite_name (suite self)) (run_name a)] else [])
                  @ batch_events (before @ [(call, Inl e)])
                  @ [LogError (''failed to create run: '' @ exn_str e)]
                  @ (if save a
                     then [CleanUpRun (create_run_dir env (suite_name (suite self)) (run_name a))]
                     else [])"
      using ok evs by (intro exI[of _ before] conjI)
    show "disk_events evs =
           (if save a
            then [CreateRunDir (suite_name (suite self)) (run_name a),
                  CleanUpRun (create_run_dir env (suite_name (suite self)) (run_name a))]
            else [])"
      by (rule disk)
  qed
qed

theorem run_scoring_failure_witness:
  "fst (TestSuite_run mem_env (suite_with ''raises_on_second'' sums_cases)
          (args_with [''4'', ''six''] None True 1)) =
     Inl (Exn ArthurInternalError ''failed to create run r1''
           (Some (Exn (OtherException ''RuntimeError'') ''backend down'' None))) \<and>
   disk_events (snd (TestSuite_run mem_env (suite_with ''raises_on_second'' sums_cases)
          (args_with [''4'', ''six''] None True 1))) =
     [CreateRunDir ''sums'' ''r1'', CleanUpRun (Path [''bench'', ''sums'', ''r1''])]"
proof -
  let ?e = "Exn (OtherException ''RuntimeError'') ''backend down'' None"
  let ?call = "RunBatch3 [Some ''6''] [''six''] [''3+3?'']"
  let ?evs = "[CreateRunDir ''sums'' ''r1'',
     RunBatch (RunBatch3 [Some ''4''] [''4''] [''2+2?'']) (Inr [1]),
     RunBatch ?call (Inl ?e),
     LogError ''failed to create run: backend down'',
     CleanUpRun (Path [''bench'', ''sums'', ''r1''])]"
  have run: "TestSuite_run mem_env (suite_with ''raises_on_second'' sums_cases)
     (args_with [''4'', ''six''] None True 1) =
   (Inl (Exn ArthurInternalError ''failed to create run r1'' (Some ?e)), ?evs)"
    by code_simp
  have raised: "RunBatch ?call (Inl ?e) \<in> set ?evs" by simp
  have exc: "is_Exception (exn_class ?e)" by simp
  from run_scoring_failure[OF run raised exc] show ?thesis
    unfolding run by (simp add: args_with_def suite_with_def mem_env_def)
qed

text \<open>
  C3 as stated, for every exception, fails: the handler is \<open>except Exception\<close>. When
  \<open>run_batch\<close> is left by a \<open>KeyboardInterrupt\<close>, which derives from \<open>BaseException\<close>
  only, \<open>run\<close> with \<open>save\<close> has created the run directory and lets the interrupt
  through: nothing is logged, the run directory is not removed, and what is raised is
  the interrupt itself and no \<open>ArthurInternalError\<close>.
\<close>

theorem run_interrupt_counterexample:
  "TestSuite_run mem_env (suite_with ''interrupted'' sums_cases)
     (args_with [''4'', ''six''] None True 32) =
     (Inl (Exn (NonException ''KeyboardInterrupt'') [] None),
      [CreateRunDir ''sums'' ''r1'',
       RunBatch (RunBatch3 [Some ''4'', Some ''6''] [''4'', ''six''] [''2+2?'', ''3+3?''])
         (Inl (Exn (NonException ''KeyboardInterrupt'') [] None))])"
  by code_simp


section \<open>The batch size is not validated\<close>

text \<open>
  C9. \<open>run\<close> does not check \<open>batch_size\<close>. With \<open>batch_size = 0\<close> the
  \<open>ValueError\<close> of \<open>range\<close> is caught by the handler of the \<open>try\<close> block: the error
  is logged, the run directory is removed if it was created, and \<open>run\<close> raises an
  \<open>ArthurInternalError\<close> with the \<open>ValueError\<close> as its cause. With a negative
  \<open>batch_size\<close> the loop body never runs: \<open>run\<close> returns a run with no test case
  output and the scoring method is never called.
\<close>

theorem run_batch_size_unchecked:
  assumes "load_run_data_from_args env (candidate_data a) (candidate_data_path a)
             (candidate_column a) (candidate_output_list a) (context_column a) (context_list a)
           = Inr (cs, ctx)"
    and "length cs = length (test_cases (suite self))"
    and "load_scoring_method env (suite_scoring_method (suite self)) = Inr sm"
  shows "(batch_size a = 0 \<longrightarrow>
            TestSuite_run env self a =
              (Inl (Exn ArthurInternalError (''failed to create run '' @ run_name a)
                     (Some (Exn ValueError ''range() arg 3 must not be zero'' None))),
               (if save a then [CreateRunDir (suite_name (suite self)) (run_name a)] else [])
                 @ [LogError ''failed to create run: range() arg 3 must not be zero'']
                 @ (if save a
                    then [CleanUpRun (create_run_dir env (suite_name (suite self)) (run_name a))]
                    else []))) \<and>
         (batch_size a < 0 \<longrightarrow>
            (\<exists>r evs. TestSuite_run env self a = (Inr r, evs) \<and> test_case_outputs r = [] \<and>
                      scoring_calls evs = []))"
proof (intro conjI impI)
  assume z: "batch_size a = 0"
  have t: "try_scoring sm (test_cases (suite self)) cs ctx (batch_size a)
             = (Inl (Exn ValueError ''range() arg 3 must not be zero'' None), [])"
    using z by (simp add: try_scoring_zero)
  show "TestSuite_run env self a =
              (Inl (Exn ArthurInternalError (''failed to create run '' @ run_name a)
                     (Some (Exn ValueError ''range() arg 3 must not be zero'' None))),
               (if save a then [CreateRunDir (suite_name (suite self)) (run_name a)] else [])
                 @ [LogError ''failed to create run: range() arg 3 must not be zero'']
                 @ (if save a
                    then [CleanUpRun (create_run_dir env (suite_name (suite self)) (run_name a))]
                    else []))"
    using run_reaches_scoring[OF assms t] by (simp add: batch_events_def)
next
  assume n: "batch_size a < 0"
  have t: "try_scoring sm (test_cases (suite self)) cs ctx (batch_size a) = (Inr [], [])"
    using n by (rule try_scoring_negative)
  show "\<exists>r evs. TestSuite_run env self a = (Inr r, evs) \<and> test_case_outputs r = [] \<and>
                      scoring_calls evs = []"
    using run_reaches_scoring[OF assms t] by (simp add: batch_events_def pair_outputs_def)
qed

theorem run_batch_size_unchecked_witness:
  "TestSuite_run mem_env (suite_with ''exact_match'' sums_cases) (args_with [''4'', ''six''] None True 0) =
     (Inl (Exn ArthurInternalError ''failed to create run r1''
            (Some (Exn ValueError ''range() arg 3 must not be zero'' None))),
      [CreateRunDir ''sums'' ''r1'',
       LogError ''failed to create run: range() arg 3 must not be zero'',
       CleanUpRun (Path [''bench'', ''sums'', ''r1''])]) \<and>
   (\<exists>r evs. TestSuite_run mem_env (suite_with ''exact_match'' sums_cases)
               (args_with [''4'', ''six''] None False (- 5)) = (Inr r, evs) \<and>
            test_case_outputs r = [] \<and> scoring_calls evs = [])"
proof -
  have z: "batch_size (args_with [''4'', ''six''] None True 0) = 0"
    by (simp add: args_with_def)
  have n: "batch_size (args_with [''4'', ''six''] None False (- 5)) < 0"
    by (simp add: args_with_def)
  show ?thesis
    using run_batch_size_unchecked [of mem_env "args_with [''4'', ''six''] None True 0"
        "[''4'', ''six'']" None "suite_with ''exact_match'' sums_cases" exact_match] z
      run_batch_size_unchecked [of mem_env "args_with [''4'', ''six''] None False (- 5)"
        "[''4'', ''six'']" None "suite_with ''exact_match'' sums_cases" exact_match] n
    by (simp add: mem_env_def suite_with_def sums_cases_def args_with_def)
qed


section \<open>The number of scores is not validated\<close>

text \<open>
  C10. \<open>run\<close> does not check that one score came back per case. When the \<open>try\<close>
  block ends with fewer scores than there are candidate outputs, the pairing stops at
  the shorter list: the run holds one output per score, which is fewer than the suite
  has test cases, it is returned without an error, and with \<open>save\<close> the suite and this
  run are written as the last two events.
\<close>

theorem run_fewer_scores:
  assumes l: "load_run_data_from_args env (candidate_data a) (candidate_data_path a)
             (candidate_column a) (candidate_output_list a) (context_column a) (context_list a)
           = Inr (cs, ctx)"
    and n: "length cs = length (test_cases (suite self))"
    and s: "load_scoring_method env (suite_scoring_method (suite self)) = Inr sm"
    and t: "try_scoring sm (test_cases (suite self)) cs ctx (batch_size a) = (Inr all_scores, made)"
    and fewer: "length all_scores < length cs"
  shows "\<exists>r evs. TestSuite_run env self a = (Inr r, evs) \<and>
           map output_text (test_case_outputs r) = take (length all_scores) cs \<and>
           map score (test_case_outputs r) = all_scores \<and>
           length (test_case_outputs r) < length (test_cases (suite self)) \<and>
           (save a \<longrightarrow>
              (\<exists>before. evs = before @
                 [WriteText (path_join (self_test_suite_dir self) ''suite.json'')
                    (suite_json env (suite self)),
                  RunSave r]))"
proof -
  let ?r = "\<lparr>tr_name = run_name a,
                test_case_outputs = pair_outputs cs all_scores,
                tr_model_name = model_name a,
                tr_model_version = model_version a,
                tr_foundation_model = foundation_model a,
                tr_prompt_template = prompt_template a,
                tr_run_dir = (if save a
                              then Some (create_run_dir env (suite_name (suite self)) (run_name a))
                              else None),
                tr_metadata = initialize_metadata env\<rparr>"
  let ?saved = "[WriteText (path_join (self_test_suite_dir self) ''suite.json'')
                    (suite_json env (suite self)),
                 RunSave ?r]"
  let ?evs = "(if save a then [CreateRunDir (suite_name (suite self)) (run_name a)] else [])
                @ batch_events made @ (if save a then ?saved else [])"
  have run: "TestSuite_run env self a = (Inr ?r, ?evs)"
    unfolding run_reaches_scoring[OF l n s t] by simp
  have o: "map output_text (test_case_outputs ?r) = take (length all_scores) cs"
    by (simp add: pair_outputs_outputs)
  have sc: "map score (test_case_outputs ?r) = all_scores"
    using fewer by (simp add: pair_outputs_scores)
  have len: "length (test_case_outputs ?r) < length (test_cases (suite self))"
    using fewer n by (simp add: length_pair_outputs)
  have sv: "save a \<longrightarrow> (\<exists>before. ?evs = before @ ?saved)"
  proof
    assume sa: "save a"
    show "\<exists>before. ?evs = before @ ?saved"
      by (rule exI[of _ "[CreateRunDir (suite_name (suite self)) (run_name a)] @ batch_events made"])
         (simp add: sa)
  qed
  show ?thesis
    by (intro exI[of _ ?r] exI[of _ ?evs] conjI) (rule run o sc len sv)+
qed

theorem run_fewer_scores_witness:
  "\<exists>r evs. TestSuite_run mem_env (suite_with ''no_scores'' sums_cases)
              (args_with [''4'', ''six''] None True 32) = (Inr r, evs) \<and>
           test_case_outputs r = [] \<and> last evs = RunSave r"
proof -
  let ?a = "args_with [''4'', ''six''] None True 32"
  let ?self = "suite_with ''no_scores'' sums_cases"
  have l: "load_run_data_from_args mem_env (candidate_data ?a) (candidate_data_path ?a)
             (candidate_column ?a) (candidate_output_list ?a) (context_column ?a) (context_list ?a)
           = Inr ([''4'', ''six''], None)"
    by (simp add: mem_env_def args_with_def)
  have n: "length [''4'', ''six''] = length (test_cases (suite ?self))"
    by (simp add: suite_with_def sums_cases_def)
  have s: "load_scoring_method mem_env (suite_scoring_method (suite ?self)) = Inr no_scores"
    by (simp add: mem_env_def suite_with_def)
  have t: "try_scoring no_scores (test_cases (suite ?self)) [''4'', ''six''] None (batch_size ?a) =
     (Inr [], [(RunBatch3 [Some ''4'', Some ''6''] [''4'', ''six''] [''2+2?'', ''3+3?''], Inr [])])"
    by code_simp
  have fewer: "length ([] :: score list) < length [''4'', ''six'']" by simp
  from run_fewer_scores[OF l n s t fewer] obtain r evs where
    "TestSuite_run mem_env ?self ?a = (Inr r, evs)" "map score (test_case_outputs r) = []"
    "save ?a \<longrightarrow> (\<exists>before. evs = before @
                 [WriteText (path_join (self_test_suite_dir ?self) ''suite.json'')
                    (suite_json mem_env (suite ?self)),
                  RunSave r])"
    by blast
  moreover have "save ?a" by (simp add: args_with_def)
  ultimately have "TestSuite_run mem_env ?self ?a = (Inr r, evs) \<and>
           test_case_outputs r = [] \<and> last evs = RunSave r"
    by auto
  then show ?thesis by blast
qed


section \<open>Construction of a suite\<close>

text \<open>
  C5. When a suite is persisted under the requested name, the constructor takes it as
  it is: the result holds the persisted suite (its test cases, its scoring method) and
  the directory looked up for the name, whatever scoring method, data and description
  were passed. The only event is the log line; no suite directory is created.
\<close>

theorem init_existing_suite:
  assumes "get_suite_if_exists env (name a) = Some s"
  shows "TestSuite_init env a =
           (Inr \<lparr>suite_id = None, suite = s, self_test_suite_dir = test_suite_dir env (name a)\<rparr>,
            [LogInfo (''Found existing test suite with name '' @ name a @ ''. Using existing suite'')])"
  using assms by (simp add: TestSuite_init_def)

theorem init_existing_suite_witness:
  "TestSuite_init mem_env (init_with ''sums'' (StrArg ''qa_correctness'') (Some [''1+1?'']) None) =
     (Inr \<lparr>suite_id = None,
           suite = \<lparr>suite_name = ''sums'', suite_scoring_method = OtherScoring ''exact_match'',
                    suite_description = None, test_cases = sums_cases, suite_metadata = []\<rparr>,
           self_test_suite_dir = Path [''bench'', ''sums'']\<rparr>,
      [LogInfo ''Found existing test suite with name sums. Using existing suite''])"
proof -
  have h: "get_suite_if_exists mem_env
             (name (init_with ''sums'' (StrArg ''qa_correctness'') (Some [''1+1?'']) None)) =
           Some \<lparr>suite_name = ''sums'', suite_scoring_method = OtherScoring ''exact_match'',
                    suite_description = None, test_cases = sums_cases, suite_metadata = []\<rparr>"
    by (simp add: mem_env_def init_with_def sums_cases_def)
  from init_existing_suite[OF h] show ?thesis
    by (simp add: mem_env_def init_with_def)
qed

text \<open>
  The reference column with \<open>QACorrectness\<close>: the constructor gives the same result
  whatever \<open>reference_column\<close> is passed, and a table that holds a reference column
  gives test cases without a reference output.
\<close>

lemma init_qa_drops_reference_column:
  assumes "get_scoring_method env (scoring_method a) = Inr QACorrectness"
  shows "TestSuite_init env (a\<lparr>reference_column := c\<rparr>) = TestSuite_init env a"
  using assms by (simp add: TestSuite_init_def split: option.splits sum.splits)

lemma init_qa_table_drops_reference:
  "TestSuite_init mem_env
     ((init_with ''qa'' (EnumArg QACorrectness) None None)
        \<lparr>reference_data := Some [(''input'', [''2+2?'']), (''reference_output'', [''4''])]\<rparr>) =
     (Inr \<lparr>suite_id = None,
           suite = \<lparr>suite_name = ''qa'', suite_scoring_method = QACorrectness,
                    suite_description = None,
                    test_cases = [\<lparr>input = ''2+2?'', reference_output = None\<rparr>],
                    suite_metadata = [(''bench_version'', ''0'')]\<rparr>,
           self_test_suite_dir = Path [''bench'', ''qa'']\<rparr>,
      [CreateTestSuiteDir ''qa''])"
  by (simp add: TestSuite_init_def mem_env_def init_with_def spec_load_suite_from_args_def
      cases_from_table_def cases_from_lists_def)

text \<open>
  C6. The claim asks that with \<open>QACorrectness\<close> a supplied reference output list be
  ignored as the reference column is. The constructor drops the column only. When no
  suite is persisted under the name and the scoring method is \<open>QACorrectness\<close>, then for
  every loader the constructor calls it with no reference column and with
  \<open>reference_output_list\<close> as it was passed, and the suite holds the test cases the
  loader returns for these arguments: a supplied reference list reaches the loader.
\<close>

theorem init_qa_keeps_reference_list:
  assumes "get_suite_if_exists env (name a) = None"
    and "get_scoring_method env (scoring_method a) = Inr QACorrectness"
  shows "TestSuite_init env a =
           (case load_suite_from_args env (reference_data a) (reference_data_path a)
                   (input_column a) None (input_text_list a) (reference_output_list a) of
              Inl e \<Rightarrow> (Inl e, [])
            | Inr cases \<Rightarrow>
                (Inr \<lparr>suite_id = None,
                      suite = \<lparr>suite_name = name a, suite_scoring_method = QACorrectness,
                               suite_description = description a, test_cases = cases,
                               suite_metadata = initialize_metadata env\<rparr>,
                      self_test_suite_dir = create_test_suite_dir env (name a)\<rparr>,
                 [CreateTestSuiteDir (name a)]))"
  using assms by (simp add: TestSuite_init_def)

theorem init_qa_keeps_reference_list_witness:
  "TestSuite_init mem_env
     (init_with ''qa'' (EnumArg QACorrectness) (Some [''2+2?'']) (Some [''4''])) =
     (Inr \<lparr>suite_id = None,
           suite = \<lparr>suite_name = ''qa'', suite_scoring_method = QACorrectness,
                    suite_description = None,
                    test_cases = [\<lparr>input = ''2+2?'', reference_output = Some ''4''\<rparr>],
                    suite_metadata = [(''bench_version'', ''0'')]\<rparr>,
           self_test_suite_dir = Path [''bench'', ''qa'']\<rparr>,
      [CreateTestSuiteDir ''qa''])"
proof -
  let ?a = "init_with ''qa'' (EnumArg QACorrectness) (Some [''2+2?'']) (Some [''4''])"
  have e: "get_suite_if_exists mem_env (name ?a) = None"
    by (simp add: mem_env_def init_with_def)
  have h: "get_scoring_method mem_env (scoring_method ?a) = Inr QACorrectness"
    by (simp add: mem_env_def init_with_def)
  have l: "load_suite_from_args mem_env (reference_data ?a) (reference_data_path ?a)
             (input_column ?a) None (input_text_list ?a) (reference_output_list ?a) =
           Inr [\<lparr>input = ''2+2?'', reference_output = Some ''4''\<rparr>]"
    by (simp add: mem_env_def init_with_def spec_load_suite_from_args_def cases_from_lists_def)
  show ?thesis
    unfolding init_qa_keeps_reference_list[OF e h] l
    by (simp add: mem_env_def init_with_def)
qed

end
